theory Spec2Isabelle
  imports Main "HOL-Library.Monad_Syntax" "HOL-Library.Sublist"
begin

section \<open>Characters and strings\<close>

text \<open>
  A Python \<open>str\<close> is a sequence of code points. The model works on the code points
  U+0000 .. U+00FF: a \<open>char\<close> is one code point, a \<open>string\<close> a Python \<open>str\<close>.
  The character classes below are the restrictions of Python's classes to that range.
\<close>

definition isspace :: "char \<Rightarrow> bool" where
  \<comment> \<open>\<open>str.isspace\<close>, the set that \<open>str.strip()\<close>, the pattern \<open>\s\<close> and \<open>int()\<close> skip.\<close>
  "isspace c \<longleftrightarrow> c \<in> set [CHR 0x09, CHR 0x0A, CHR 0x0B, CHR 0x0C, CHR 0x0D,
      CHR 0x1C, CHR 0x1D, CHR 0x1E, CHR 0x1F, CHR 0x20, CHR 0x85, CHR 0xA0]"

definition ascii_lowercase :: string where
  "ascii_lowercase = ''abcdefghijklmnopqrstuvwxyz''"

definition ascii_uppercase :: string where
  "ascii_uppercase = ''ABCDEFGHIJKLMNOPQRSTUVWXYZ''"

definition latin1_lowercase :: string where
  "latin1_lowercase =
    [CHR 0xE0, CHR 0xE1, CHR 0xE2, CHR 0xE3, CHR 0xE4, CHR 0xE5, CHR 0xE6, CHR 0xE7,
     CHR 0xE8, CHR 0xE9, CHR 0xEA, CHR 0xEB, CHR 0xEC, CHR 0xED, CHR 0xEE, CHR 0xEF,
     CHR 0xF0, CHR 0xF1, CHR 0xF2, CHR 0xF3, CHR 0xF4, CHR 0xF5, CHR 0xF6,
     CHR 0xF8, CHR 0xF9, CHR 0xFA, CHR 0xFB, CHR 0xFC, CHR 0xFD, CHR 0xFE]"

definition latin1_uppercase :: string where
  "latin1_uppercase =
    [CHR 0xC0, CHR 0xC1, CHR 0xC2, CHR 0xC3, CHR 0xC4, CHR 0xC5, CHR 0xC6, CHR 0xC7,
     CHR 0xC8, CHR 0xC9, CHR 0xCA, CHR 0xCB, CHR 0xCC, CHR 0xCD, CHR 0xCE, CHR 0xCF,
     CHR 0xD0, CHR 0xD1, CHR 0xD2, CHR 0xD3, CHR 0xD4, CHR 0xD5, CHR 0xD6,
     CHR 0xD8, CHR 0xD9, CHR 0xDA, CHR 0xDB, CHR 0xDC, CHR 0xDD, CHR 0xDE]"

definition upper_char :: "char \<Rightarrow> string" where
  \<comment> \<open>\<open>str.upper()\<close> on one code point. U+00DF becomes the two letters SS. U+00B5 and
      U+00FF have their capitals outside the range (U+039C, U+0178) and are left as they
      are: neither they nor their capitals belong to any class of the pattern, so
      \<open>parse_caf\<close> answers None on a string holding one of them in the model as in Python.\<close>
  "upper_char c =
     (if c = CHR 0xDF then ''SS''
      else case map_of (zip (ascii_lowercase @ latin1_lowercase)
                            (ascii_uppercase @ latin1_uppercase)) c of
             Some u \<Rightarrow> [u]
           | None \<Rightarrow> [c])"

definition upper :: "string \<Rightarrow> string" where
  "upper s = concat (map upper_char s)"

definition strip :: "string \<Rightarrow> string" where
  "strip s = rev (dropWhile isspace (rev (dropWhile isspace s)))"

definition replace_space :: "string \<Rightarrow> string" where
  \<comment> \<open>\<open>s.replace(" ", "")\<close>: only U+0020 is removed.\<close>
  "replace_space s = filter (\<lambda>c. c \<noteq> CHR '' '') s"

section \<open>The pattern \<open>CAF_RE\<close>\<close>

text \<open>
  The pattern is compiled with \<open>re.VERBOSE | re.IGNORECASE\<close>:
  \<^verbatim>\<open>^\s* [A-Z]{2} \d{2} \d{4} \. \d{2} \. \d{2} (\*\*|XX|\d{2}) \d{5} CAF \s*$\<close>.
  Every piece between the two \<open>\s*\<close> has a fixed width, the three alternatives of IDENT
  start with characters of disjoint classes, and no character of \<open>\s\<close> is in \<open>[A-Z]\<close>,
  so a backtracking matcher finds at most one way to match and a left-to-right reading
  of the pieces computes it.
\<close>

definition re_digit :: "char \<Rightarrow> bool" where
  \<comment> \<open>\<open>\d\<close>: the decimal digits of the range.\<close>
  "re_digit c \<longleftrightarrow> c \<in> set ''0123456789''"

definition re_AZ :: "char \<Rightarrow> bool" where
  \<comment> \<open>\<open>[A-Z]\<close> under IGNORECASE.\<close>
  "re_AZ c \<longleftrightarrow> c \<in> set ascii_uppercase \<or> c \<in> set ascii_lowercase"

definition eq_icase :: "char \<Rightarrow> char \<Rightarrow> bool" where
  \<comment> \<open>a literal character \<open>l\<close> of the pattern against \<open>c\<close> under IGNORECASE.\<close>
  "eq_icase l c \<longleftrightarrow> c = l \<or> (l, c) \<in> set (zip ascii_uppercase ascii_lowercase)
      \<or> (c, l) \<in> set (zip ascii_uppercase ascii_lowercase)"

fun rep :: "(char \<Rightarrow> bool) \<Rightarrow> nat \<Rightarrow> string \<Rightarrow> (string \<times> string) option" where
  \<comment> \<open>a class repeated exactly n times: the text matched and the rest.\<close>
  "rep P 0 s = Some ([], s)"
| "rep P (Suc n) [] = None"
| "rep P (Suc n) (c # cs) =
     (if P c then map_option (\<lambda>(g, r). (c # g, r)) (rep P n cs) else None)"

fun lit :: "string \<Rightarrow> string \<Rightarrow> (string \<times> string) option" where
  \<comment> \<open>a literal of the pattern: the text matched and the rest.\<close>
  "lit [] s = Some ([], s)"
| "lit (l # ls) [] = None"
| "lit (l # ls) (c # cs) =
     (if eq_icase l c then map_option (\<lambda>(g, r). (c # g, r)) (lit ls cs) else None)"

definition alt :: "(string \<Rightarrow> (string \<times> string) option) \<Rightarrow>
    (string \<Rightarrow> (string \<times> string) option) \<Rightarrow> string \<Rightarrow> (string \<times> string) option" where
  "alt p q s = (case p s of Some r \<Rightarrow> Some r | None \<Rightarrow> q s)"

record groupdict =
  UF :: string
  MES :: string
  ANO :: string
  COD1 :: string
  COD2 :: string
  IDENT :: string
  TAIL :: string

record parsed = groupdict +
  CAF_NORMALIZADO :: string

definition CAF_RE_match :: "string \<Rightarrow> groupdict option" where
  \<comment> \<open>\<open>CAF_RE.match(s)\<close> followed by \<open>groupdict()\<close>; None when there is no match.\<close>
  "CAF_RE_match s = do {
     (uf, s1) \<leftarrow> rep re_AZ 2 (dropWhile isspace s);
     (mes, s2) \<leftarrow> rep re_digit 2 s1;
     (ano, s3) \<leftarrow> rep re_digit 4 s2;
     (_, s4) \<leftarrow> lit ''.'' s3;
     (cod1, s5) \<leftarrow> rep re_digit 2 s4;
     (_, s6) \<leftarrow> lit ''.'' s5;
     (cod2, s7) \<leftarrow> rep re_digit 2 s6;
     (ident, s8) \<leftarrow> alt (lit ''**'') (alt (lit ''XX'') (rep re_digit 2)) s7;
     (tail, s9) \<leftarrow> rep re_digit 5 s8;
     (_, s10) \<leftarrow> lit ''CAF'' s9;
     if list_all isspace s10
     then Some \<lparr>UF = uf, MES = mes, ANO = ano, COD1 = cod1, COD2 = cod2,
                 IDENT = ident, TAIL = tail\<rparr>
     else None
   }"

section \<open>\<open>parse_caf\<close>\<close>

definition parse_caf :: "string \<Rightarrow> parsed option" where
  "parse_caf caf =
     (if caf = [] then None
      else let caf_n = replace_space (upper (strip caf)) in
        case CAF_RE_match caf_n of
          None \<Rightarrow> None
        | Some d \<Rightarrow> Some (groupdict.extend d (parsed.fields caf_n)))"

section \<open>Python values: integers, floats, worksheet cells\<close>

datatype exn = FileNotFoundError | IndexError | ValueError | AttributeError | BodyError

type_synonym error = "exn \<times> string"
  \<comment> \<open>the exception class and \<open>str(e)\<close>\<close>

datatype pyfloat = FFinite int int | FInf | FNaN
  \<comment> \<open>\<open>FFinite m e\<close> is the float of value \<open>m * 2 ^ e\<close>.\<close>

datatype cell = CNone | CInt int | CFloat pyfloat | CStr string | CBool bool | CDate
  \<comment> \<open>what openpyxl hands out with \<open>values_only=True\<close>; \<open>CDate\<close> stands for the
      datetime, date, time and timedelta values.\<close>

definition digit_char :: "nat \<Rightarrow> char" where
  "digit_char d = ''0123456789'' ! d"

fun str_nat :: "nat \<Rightarrow> string" where
  "str_nat n = (if n < 10 then [digit_char n] else str_nat (n div 10) @ [digit_char (n mod 10)])"

declare str_nat.simps [simp del]

definition str_int :: "int \<Rightarrow> string" where
  \<comment> \<open>\<open>str(i)\<close> of an int.\<close>
  "str_int i = (if i < 0 then CHR ''-'' # str_nat (nat (- i)) else str_nat (nat i))"

definition zfill :: "nat \<Rightarrow> string \<Rightarrow> string" where
  "zfill w s = replicate (w - length s) (CHR ''0'') @ s"

definition fmt02d :: "int \<Rightarrow> string" where
  \<comment> \<open>the format \<open>:02d\<close>: zero fill to width 2, the sign counted in the width.\<close>
  "fmt02d i = (if i < 0 then CHR ''-'' # zfill 1 (str_nat (nat (- i))) else zfill 2 (str_nat (nat i)))"

definition max_str_digits :: nat where
  \<comment> \<open>the default of \<open>sys.get_int_max_str_digits()\<close> (Python 3.11 and later): a
      conversion between \<open>int\<close> and \<open>str\<close> of more decimal digits raises ValueError.\<close>
  "max_str_digits = 4300"

definition py_str_int :: "int \<Rightarrow> string option" where
  \<comment> \<open>\<open>str(i)\<close> where it can raise; the sign is not counted.\<close>
  "py_str_int i =
     (if max_str_digits < length (str_nat (nat \<bar>i\<bar>)) then None else Some (str_int i))"

definition py_fmt02d :: "int \<Rightarrow> string option" where
  \<comment> \<open>\<open>f"{i:02d}"\<close> where it can raise.\<close>
  "py_fmt02d i =
     (if max_str_digits < length (str_nat (nat \<bar>i\<bar>)) then None else Some (fmt02d i))"

definition int_space :: "char \<Rightarrow> bool" where
  \<comment> \<open>the whitespace that \<open>int()\<close> skips around a literal: the ASCII whitespace and,
      above U+007F, the characters of \<open>str.isspace\<close>. U+001C .. U+001F are not skipped.\<close>
  "int_space c \<longleftrightarrow> c \<in> set [CHR 0x09, CHR 0x0A, CHR 0x0B, CHR 0x0C, CHR 0x0D, CHR 0x20,
      CHR 0x85, CHR 0xA0]"

definition int_strip :: "string \<Rightarrow> string" where
  "int_strip s = rev (dropWhile int_space (rev (dropWhile int_space s)))"

definition digit_val :: "char \<Rightarrow> int" where
  "digit_val c = (case map_of (zip ''0123456789'' [0, 1, 2, 3, 4, 5, 6, 7, 8, 9]) c of
                    Some v \<Rightarrow> v | None \<Rightarrow> 0)"

fun int_body :: "char \<Rightarrow> string \<Rightarrow> string option" where
  \<comment> \<open>the digits of an integer literal, single underscores allowed between digits;
      the first argument is the previous character.\<close>
  "int_body prev [] = (if prev = CHR ''_'' then None else Some [])"
| "int_body prev (c # cs) =
     (if c = CHR ''_'' then (if prev = CHR ''_'' then None else int_body c cs)
      else if re_digit c then map_option ((#) c) (int_body c cs)
      else None)"

definition int_digits :: "string \<Rightarrow> int option" where
  \<comment> \<open>the value of the digits after the sign; a literal cannot start with an
      underscore, so its first character serves as its own predecessor. The digits are
      counted with their leading zeros and without the underscores.\<close>
  "int_digits s =
     (case s of
        [] \<Rightarrow> None
      | c # cs \<Rightarrow>
          if c = CHR ''_'' then None
          else (case int_body c (c # cs) of
                  None \<Rightarrow> None
                | Some ds \<Rightarrow>
                    if max_str_digits < length ds then None
                    else Some (foldl (\<lambda>a d. 10 * a + digit_val d) 0 ds)))"

definition py_int_str :: "string \<Rightarrow> int option" where
  \<comment> \<open>\<open>int(s)\<close> of a str, None for ValueError: surrounding whitespace, one optional
      sign, at most \<open>max_str_digits\<close> decimal digits.\<close>
  "py_int_str s =
     (case int_strip s of
        [] \<Rightarrow> None
      | c # cs \<Rightarrow> if c = CHR ''-'' then map_option uminus (int_digits cs)
                 else if c = CHR ''+'' then int_digits cs
                 else int_digits (c # cs))"

definition int_of_float :: "pyfloat \<Rightarrow> int option" where
  \<comment> \<open>\<open>int(x)\<close> of a float truncates toward zero; OverflowError and ValueError on
      infinities and NaN are None.\<close>
  "int_of_float x =
     (case x of
        FFinite m e \<Rightarrow>
          Some (if 0 \<le> e then m * 2 ^ nat e else sgn m * (\<bar>m\<bar> div 2 ^ nat (- e)))
      | FInf \<Rightarrow> None
      | FNaN \<Rightarrow> None)"

definition py_int :: "cell \<Rightarrow> int option" where
  \<comment> \<open>\<open>int(v)\<close> of a cell value other than None; None for any exception.\<close>
  "py_int v =
     (case v of
        CNone \<Rightarrow> None
      | CInt i \<Rightarrow> Some i
      | CFloat x \<Rightarrow> int_of_float x
      | CStr s \<Rightarrow> py_int_str s
      | CBool b \<Rightarrow> Some (if b then 1 else 0)
      | CDate \<Rightarrow> None)"

definition mes_ok :: "cell \<Rightarrow> string option" where
  \<comment> \<open>\<open>f"{int(mes_val):02d}" if mes_val is not None else None\<close> inside its
      \<open>try\<close>: any exception gives None.\<close>
  "mes_ok mes_val = (if mes_val \<noteq> CNone then Option.bind (py_int mes_val) py_fmt02d else None)"

definition ano_ok :: "cell \<Rightarrow> string option" where
  \<comment> \<open>\<open>str(int(ano_val)) if ano_val is not None else None\<close> inside its \<open>try\<close>.\<close>
  "ano_ok ano_val = (if ano_val \<noteq> CNone then Option.bind (py_int ano_val) py_str_int else None)"

definition ident_int :: "cell \<Rightarrow> int option" where
  \<comment> \<open>\<open>int(str(ident_val).strip())\<close>, None for ValueError. \<open>str\<close> of a float always
      holds a point, an exponent, \<open>inf\<close> or \<open>nan\<close>, and \<open>str\<close> of a date or time holds
      \<open>-\<close> or \<open>:\<close> after a digit: \<open>int\<close> rejects them all.\<close>
  "ident_int ident_val =
     (case ident_val of
        CNone \<Rightarrow> py_int_str (strip ''None'')
      | CInt i \<Rightarrow> Option.bind (py_str_int i) (\<lambda>s. py_int_str (strip s))
      | CFloat x \<Rightarrow> None
      | CStr s \<Rightarrow> py_int_str (strip s)
      | CBool b \<Rightarrow> py_int_str (strip (if b then ''True'' else ''False''))
      | CDate \<Rightarrow> None)"

section \<open>\<open>ler_identificadores_unicos_ordenados\<close>\<close>

type_synonym row = "cell list"

type_synonym worksheet = "row list"
  \<comment> \<open>the rows of the active sheet, the header row first\<close>

definition row_get :: "row \<Rightarrow> nat \<Rightarrow> error + cell" where
  \<comment> \<open>\<open>row[i]\<close> on the tuple of a row.\<close>
  "row_get row i =
     (if i < length row then Inr (row ! i) else Inl (IndexError, ''tuple index out of range''))"

fun scan_rows :: "string \<Rightarrow> string \<Rightarrow> row list \<Rightarrow> string set \<times> string list \<Rightarrow>
    error + (string set \<times> string list)" where
  \<comment> \<open>the \<open>for row in ws.iter_rows(...)\<close> loop on the state \<open>(vistos, ids)\<close>.\<close>
  "scan_rows mes ano [] st = Inr st"
| "scan_rows mes ano (row # rows) (vistos, ids) =
     (case row_get row 1 of
        Inl e \<Rightarrow> Inl e
      | Inr mes_val \<Rightarrow>
     (case row_get row 2 of
        Inl e \<Rightarrow> Inl e
      | Inr ano_val \<Rightarrow>
          let ident_val = (if 6 \<le> length row then row ! 5 else CNone) in
          if mes_ok mes_val = Some mes \<and> ano_ok ano_val = Some ano then
            (case ident_int ident_val of
               None \<Rightarrow> scan_rows mes ano rows (vistos, ids)
             | Some n \<Rightarrow>
                 if 0 \<le> n \<and> n \<le> 99 then
                   let cod = fmt02d n in
                   if cod \<notin> vistos
                   then scan_rows mes ano rows (insert cod vistos, ids @ [cod])
                   else scan_rows mes ano rows (vistos, ids)
                 else scan_rows mes ano rows (vistos, ids))
          else scan_rows mes ano rows (vistos, ids)))"

definition sort_by_int :: "string list \<Rightarrow> error + string list" where
  \<comment> \<open>\<open>ids.sort(key=lambda x: int(x))\<close>: the keys are computed first, the sort is stable.\<close>
  "sort_by_int ids =
     (case those (map py_int_str ids) of
        None \<Rightarrow> Inl (ValueError, ''invalid literal for int() with base 10'')
      | Some ks \<Rightarrow> Inr (map snd (sort_key fst (zip ks ids))))"

definition ler_identificadores_unicos_ordenados ::
    "string \<Rightarrow> worksheet option \<Rightarrow> string \<Rightarrow> string \<Rightarrow> error + string list" where
  \<comment> \<open>\<open>PLANILHA\<close> is the configured path, the second argument the sheet found there
      (None when the file does not exist); \<open>min_row=2\<close> skips the header.\<close>
  "ler_identificadores_unicos_ordenados PLANILHA planilha mes ano =
     (case planilha of
        None \<Rightarrow> Inl (FileNotFoundError,
                 ''Planilha n'' @ [CHR 0xE3] @ ''o encontrada: '' @ PLANILHA)
      | Some ws \<Rightarrow>
          (case scan_rows mes ano (drop 1 ws) ({}, []) of
             Inl e \<Rightarrow> Inl e
           | Inr (vistos, ids) \<Rightarrow> sort_by_int ids))"

section \<open>\<open>gerar_combos\<close>\<close>

definition fullmatch_d2 :: "string \<Rightarrow> bool" where
  \<comment> \<open>\<open>re.fullmatch(r"\d{2}", ident)\<close>\<close>
  "fullmatch_d2 ident \<longleftrightarrow> rep re_digit 2 ident = Some (ident, [])"

definition prefixo :: "parsed \<Rightarrow> string" where
  "prefixo p = UF p @ MES p @ ANO p @ ''.'' @ COD1 p @ ''.'' @ COD2 p"

definition tail :: "parsed \<Rightarrow> string" where
  "tail p = TAIL p @ ''CAF''"

definition gerar_combos :: "parsed \<Rightarrow> string list \<Rightarrow> string list" where
  "gerar_combos p ids_lista =
     (let ident = IDENT p in
      if fullmatch_d2 ident
      then (if ident \<in> set ids_lista then [prefixo p @ ident @ tail p] else [])
      else map (\<lambda>cod. prefixo p @ cod @ tail p) ids_lista)"

section \<open>The POST handler\<close>

datatype json = JNull | JBool bool | JInt int | JFloat pyfloat | JStr string
  | JArr "json list" | JObj "(string \<times> json) list"
  \<comment> \<open>the value \<open>json.loads\<close> returned; an object is the list of the items of the dict,
      each key once.\<close>

datatype request = Unreadable string | Body json
  \<comment> \<open>\<open>Unreadable msg\<close>: reading Content-Length, decoding UTF-8 or \<open>json.loads\<close> raised
      an exception of text \<open>msg\<close>. A request with no body is \<open>Body (JObj [])\<close>.\<close>

datatype payload = Erro string | Combos "string list"

record response =
  status :: nat
  body :: payload

fun truthy :: "json \<Rightarrow> bool" where
  "truthy JNull = False"
| "truthy (JBool b) = b"
| "truthy (JInt i) = (i \<noteq> 0)"
| "truthy (JFloat x) = (case x of FFinite m e \<Rightarrow> m \<noteq> 0 | _ \<Rightarrow> True)"
| "truthy (JStr s) = (s \<noteq> [])"
| "truthy (JArr xs) = (xs \<noteq> [])"
| "truthy (JObj kvs) = (kvs \<noteq> [])"

fun type_name :: "json \<Rightarrow> string" where
  "type_name JNull = ''NoneType''"
| "type_name (JBool b) = ''bool''"
| "type_name (JInt i) = ''int''"
| "type_name (JFloat x) = ''float''"
| "type_name (JStr s) = ''str''"
| "type_name (JArr xs) = ''list''"
| "type_name (JObj kvs) = ''dict''"

definition no_attribute :: "json \<Rightarrow> string \<Rightarrow> error" where
  "no_attribute v a =
     (AttributeError, [CHR 0x27] @ type_name v @ [CHR 0x27] @ '' object has no attribute ''
        @ [CHR 0x27] @ a @ [CHR 0x27])"

definition caf_in :: "request \<Rightarrow> error + string" where
  \<comment> \<open>the first three statements of the \<open>try\<close> block, down to
      \<open>(data.get("caf") or "").strip()\<close>.\<close>
  "caf_in req =
     (case req of
        Unreadable msg \<Rightarrow> Inl (BodyError, msg)
      | Body data \<Rightarrow>
          (case data of
             JObj kvs \<Rightarrow>
               let got = (case map_of kvs ''caf'' of None \<Rightarrow> JNull | Some v \<Rightarrow> v);
                   v = (if truthy got then got else JStr [])
               in (case v of JStr s \<Rightarrow> Inr (strip s) | _ \<Rightarrow> Inl (no_attribute v ''strip''))
           | _ \<Rightarrow> Inl (no_attribute data ''get'')))"

definition msg_formato :: string where
  "msg_formato = ''Formato inv'' @ [CHR 0xE1] @ ''lido. Ex.: BA032025.01.00**39367CAF''"

definition msg_nenhum :: "string \<Rightarrow> string \<Rightarrow> string" where
  "msg_nenhum mes ano = ''Nenhum identificador encontrado para '' @ mes @ ''/'' @ ano @ ''.''"

definition msg_ident :: string where
  "msg_ident = ''IDENT j'' @ [CHR 0xE1] @ '' num'' @ [CHR 0xE9] @ ''rico e n'' @ [CHR 0xE3]
     @ ''o presente no gabarito para este m'' @ [CHR 0xEA] @ ''s/ano.''"

definition try_POST :: "string \<Rightarrow> worksheet option \<Rightarrow> request \<Rightarrow> error + response" where
  \<comment> \<open>the body of the \<open>try\<close> block of \<open>do_POST\<close>.\<close>
  "try_POST PLANILHA planilha req =
     (case caf_in req of
        Inl e \<Rightarrow> Inl e
      | Inr c \<Rightarrow>
          (case parse_caf c of
             None \<Rightarrow> Inr \<lparr>status = 400, body = Erro msg_formato\<rparr>
           | Some p \<Rightarrow>
               (case ler_identificadores_unicos_ordenados PLANILHA planilha (MES p) (ANO p) of
                  Inl e \<Rightarrow> Inl e
                | Inr ids \<Rightarrow>
                    if ids = [] then Inr \<lparr>status = 404, body = Erro (msg_nenhum (MES p) (ANO p))\<rparr>
                    else let combos = gerar_combos p ids in
                      if combos = [] then Inr \<lparr>status = 404, body = Erro msg_ident\<rparr>
                      else Inr \<lparr>status = 200, body = Combos combos\<rparr>)))"

definition do_POST :: "string \<Rightarrow> worksheet option \<Rightarrow> request \<Rightarrow> response" where
  "do_POST PLANILHA planilha req =
     (case try_POST PLANILHA planilha req of
        Inr r \<Rightarrow> r
      | Inl (FileNotFoundError, msg) \<Rightarrow> \<lparr>status = 500, body = Erro msg\<rparr>
      | Inl (_, msg) \<Rightarrow> \<lparr>status = 500, body = Erro (''Erro interno: '' @ msg)\<rparr>)"

section \<open>Notions used in the statements and proofs\<close>

text \<open>
  None of the definitions below is part of the program: they name the shapes of the
  fields, the rows that count and the example inputs that the theorems speak about.
\<close>

text \<open>The record of the spec's example code, with a chosen IDENT.\<close>

definition ex_parsed :: "string \<Rightarrow> parsed" where
  "ex_parsed i = \<lparr>UF = ''BA'', MES = ''03'', ANO = ''2025'', COD1 = ''01'', COD2 = ''00'',
     IDENT = i, TAIL = ''39367'', CAF_NORMALIZADO = ''BA032025.01.00'' @ i @ ''39367CAF''\<rparr>"

text \<open>What each group of the pattern can hold.\<close>

definition ident_ok :: "string \<Rightarrow> bool" where
  "ident_ok i \<longleftrightarrow> list_all2 eq_icase ''**'' i \<or> list_all2 eq_icase ''XX'' i
      \<or> (length i = 2 \<and> list_all re_digit i)"

definition fields_ok :: "'a groupdict_scheme \<Rightarrow> bool" where
  "fields_ok d \<longleftrightarrow>
     length (UF d) = 2 \<and> list_all re_AZ (UF d) \<and>
     length (MES d) = 2 \<and> list_all re_digit (MES d) \<and>
     length (ANO d) = 4 \<and> list_all re_digit (ANO d) \<and>
     length (COD1 d) = 2 \<and> list_all re_digit (COD1 d) \<and>
     length (COD2 d) = 2 \<and> list_all re_digit (COD2 d) \<and>
     ident_ok (IDENT d) \<and>
     length (TAIL d) = 5 \<and> list_all re_digit (TAIL d)"

text \<open>The fields put back together, followed by the text matched by the literal CAF.\<close>

definition code_of :: "'a groupdict_scheme \<Rightarrow> string \<Rightarrow> string" where
  "code_of d caf = UF d @ MES d @ ANO d @ ''.'' @ COD1 d @ ''.'' @ COD2 d @ IDENT d @ TAIL d @ caf"

text \<open>A string that neither starts nor ends with whitespace.\<close>

definition ends_ok :: "string \<Rightarrow> bool" where
  "ends_ok s \<longleftrightarrow> s = [] \<or> (\<not> isspace (hd s) \<and> \<not> isspace (last s))"

text \<open>
  The tests of the loop body on one row: the month and year cells equal the requested
  ones, the value read from the identifier cell, and the identifier the row contributes.
\<close>

definition row_matches :: "string \<Rightarrow> string \<Rightarrow> row \<Rightarrow> bool" where
  "row_matches mes ano row \<longleftrightarrow> mes_ok (row ! 1) = Some mes \<and> ano_ok (row ! 2) = Some ano"

definition row_ident :: "row \<Rightarrow> int option" where
  "row_ident row = ident_int (if 6 \<le> length row then row ! 5 else CNone)"

definition row_id :: "string \<Rightarrow> string \<Rightarrow> row \<Rightarrow> int option" where
  "row_id mes ano row =
     (if row_matches mes ano row
      then (case row_ident row of
              None \<Rightarrow> None
            | Some n \<Rightarrow> if 0 \<le> n \<and> n \<le> 99 then Some n else None)
      else None)"

text \<open>The identifiers the claim speaks of: integers of 0..99 found in matching rows.\<close>

definition in_range :: "int list \<Rightarrow> bool" where
  "in_range ms \<longleftrightarrow> (\<forall>m\<in>set ms. 0 \<le> m \<and> m \<le> 99)"

definition ids_of :: "string \<Rightarrow> string \<Rightarrow> worksheet \<Rightarrow> int set" where
  "ids_of mes ano ws =
     {n. 0 \<le> n \<and> n \<le> 99 \<and>
         (\<exists>row\<in>set (drop 1 ws). row_matches mes ano row \<and> row_ident row = Some n)}"

text \<open>
  The spec's example sheet: a header row, then rows of month 3, year 2025 with the
  identifiers 5, 12, 5, "bad", 130, 7.
\<close>

definition ex_sheet :: worksheet where
  "ex_sheet =
    [ [CStr ''uf'', CStr ''mes'', CStr ''ano'', CStr ''c1'', CStr ''c2'', CStr ''ident''],
     [CStr ''BA'', CInt 3, CInt 2025, CInt 1, CInt 0, CInt 5],
     [CStr ''BA'', CInt 3, CInt 2025, CInt 1, CInt 0, CInt 12],
     [CStr ''BA'', CInt 3, CInt 2025, CInt 1, CInt 0, CInt 5],
     [CStr ''BA'', CInt 3, CInt 2025, CInt 1, CInt 0, CStr ''bad''],
     [CStr ''BA'', CInt 3, CInt 2025, CInt 1, CInt 0, CInt 130],
     [CStr ''BA'', CInt 3, CInt 2025, CInt 1, CInt 0, CInt 7] ]"

text \<open>The characters of a normalised code.\<close>

definition code_char :: "char \<Rightarrow> bool" where
  "code_char c \<longleftrightarrow> c \<in> set ascii_uppercase \<or> re_digit c \<or> c = CHR ''.'' \<or> c = CHR ''*''"


text \<open>The POST body \<open>{"caf": "ba032025.01.00**39367caf"}\<close>.\<close>

definition ex_request :: request where
  "ex_request = Body (JObj [(''caf'', JStr ''ba032025.01.00**39367caf'')])"

section \<open>Expansion, null results and the missing field\<close>

lemma rep_digit2: "rep re_digit 2 [a, b] = Some ([a, b], []) \<longleftrightarrow> re_digit a \<and> re_digit b"
  by (simp add: numeral_2_eq_2)

lemma fullmatch_d2_iff: "fullmatch_d2 [a, b] \<longleftrightarrow> re_digit a \<and> re_digit b"
  by (simp add: fullmatch_d2_def numeral_2_eq_2)

lemma not_fullmatch_d2_wild: "\<not> fullmatch_d2 ''**''" "\<not> fullmatch_d2 ''XX''"
  by (simp_all add: fullmatch_d2_def numeral_2_eq_2 re_digit_def)

text \<open>
  C2. When IDENT is one of the wildcard markers \<open>**\<close> and \<open>XX\<close>, \<open>gerar_combos\<close>
  returns one combo per member of the identifier list, in the same order, each being
  UF MES ANO . COD1 . COD2, the member, TAIL and CAF.
\<close>

theorem gerar_combos_wildcard:
  assumes "IDENT p = ''**'' \<or> IDENT p = ''XX''"
  shows "gerar_combos p ids =
    map (\<lambda>cod. UF p @ MES p @ ANO p @ ''.'' @ COD1 p @ ''.'' @ COD2 p @ cod @ TAIL p @ ''CAF'') ids"
  using assms by (auto simp: gerar_combos_def not_fullmatch_d2_wild prefixo_def tail_def)

theorem gerar_combos_wildcard_witness:
  "(IDENT (ex_parsed ''**'') = ''**'' \<or> IDENT (ex_parsed ''**'') = ''XX'') \<and>
   gerar_combos (ex_parsed ''**'') [''00'', ''05'', ''12''] =
     [''BA032025.01.000039367CAF'', ''BA032025.01.000539367CAF'', ''BA032025.01.001239367CAF'']"
  using gerar_combos_wildcard [of "ex_parsed ''**''" "[''00'', ''05'', ''12'']"]
  by (simp add: ex_parsed_def)

text \<open>
  C3. When IDENT is two digits, \<open>gerar_combos\<close> returns the one combo built with IDENT
  itself if IDENT is a member of the identifier list, and the empty list otherwise.
\<close>

theorem gerar_combos_literal:
  assumes "IDENT p = [a, b]" and "re_digit a" and "re_digit b"
  shows "gerar_combos p ids =
    (if IDENT p \<in> set ids
     then [UF p @ MES p @ ANO p @ ''.'' @ COD1 p @ ''.'' @ COD2 p @ IDENT p @ TAIL p @ ''CAF'']
     else [])"
  using assms by (simp add: gerar_combos_def fullmatch_d2_iff prefixo_def tail_def)

theorem gerar_combos_literal_witness:
  "IDENT (ex_parsed ''05'') = [CHR ''0'', CHR ''5''] \<and> re_digit (CHR ''0'') \<and> re_digit (CHR ''5'') \<and>
   gerar_combos (ex_parsed ''05'') [''00'', ''12''] = [] \<and>
   gerar_combos (ex_parsed ''05'') [''00'', ''05''] = [''BA032025.01.000539367CAF'']"
  using gerar_combos_literal [of "ex_parsed ''05''" "CHR ''0''" "CHR ''5''" "[''00'', ''12'']"]
    gerar_combos_literal [of "ex_parsed ''05''" "CHR ''0''" "CHR ''5''" "[''00'', ''05'']"]
  by (simp add: ex_parsed_def re_digit_def)

lemma strip_all_space: "list_all isspace s \<Longrightarrow> strip s = []"
proof -
  assume "list_all isspace s"
  then have "dropWhile isspace s = []"
    by (simp add: list_all_iff)
  then have "rev (dropWhile isspace (rev (dropWhile isspace s))) = rev (dropWhile isspace (rev []))"
    by (rule arg_cong)
  then show ?thesis
    unfolding strip_def by simp
qed

lemma CAF_RE_match_Nil: "CAF_RE_match [] = None"
  by (simp add: CAF_RE_match_def numeral_2_eq_2)

lemma parse_caf_all_space: "list_all isspace s \<Longrightarrow> parse_caf s = None"
  by (simp add: parse_caf_def strip_all_space upper_def replace_space_def CAF_RE_match_Nil)

lemma parse_caf_not_a_code: "parse_caf ''not-a-code'' = None"
  by (simp add: parse_caf_def strip_def isspace_def upper_def upper_char_def replace_space_def
      ascii_lowercase_def ascii_uppercase_def latin1_lowercase_def latin1_uppercase_def
      CAF_RE_match_def numeral_2_eq_2 re_AZ_def re_digit_def)

text \<open>
  C9. \<open>parse_caf\<close> returns None (it has no other way to fail) on the empty string, on
  every string of whitespace only, and on every string whose normalisation the pattern does
  not match; so it does on the strings of three spaces and \<open>not-a-code\<close>.
\<close>

theorem parse_caf_null:
  "parse_caf [] = None \<and>
   (list_all isspace s \<longrightarrow> parse_caf s = None) \<and>
   (CAF_RE_match (replace_space (upper (strip t))) = None \<longrightarrow> parse_caf t = None) \<and>
   parse_caf ''   '' = None \<and>
   parse_caf ''not-a-code'' = None"
proof -
  have "parse_caf ''   '' = None"
    by (rule parse_caf_all_space) (simp add: isspace_def)
  moreover have "CAF_RE_match (replace_space (upper (strip t))) = None \<longrightarrow> parse_caf t = None"
    by (simp add: parse_caf_def)
  ultimately show ?thesis
    using parse_caf_all_space [of s] parse_caf_not_a_code by (simp add: parse_caf_def)
qed

theorem parse_caf_null_witness:
  "list_all isspace [CHR 0x09, CHR '' ''] \<and> parse_caf [CHR 0x09, CHR '' ''] = None \<and>
   CAF_RE_match (replace_space (upper (strip ''BA032025.01.00**39367''))) = None \<and>
   parse_caf ''BA032025.01.00**39367'' = None"
  using parse_caf_null [of "[CHR 0x09, CHR '' '']" "''BA032025.01.00**39367''"]
  by (simp add: isspace_def strip_def upper_def upper_char_def replace_space_def
      ascii_lowercase_def ascii_uppercase_def latin1_lowercase_def latin1_uppercase_def
      CAF_RE_match_def eval_nat_numeral re_AZ_def re_digit_def eq_icase_def alt_def)

text \<open>
  C10. A POST whose body is an object in which \<open>caf\<close> is absent (the empty object
  included), null or the empty string is answered 400 with the "Formato inv..lido" message,
  whatever the state of the spreadsheet file.
\<close>

theorem do_POST_missing_caf:
  assumes "map_of kvs ''caf'' = None \<or> map_of kvs ''caf'' = Some JNull \<or> map_of kvs ''caf'' = Some (JStr [])"
  shows "do_POST PLANILHA planilha (Body (JObj kvs)) = \<lparr>status = 400, body = Erro msg_formato\<rparr>"
proof -
  have "caf_in (Body (JObj kvs)) = Inr []"
    using assms by (auto simp: caf_in_def strip_def)
  then show ?thesis
    by (simp add: do_POST_def try_POST_def parse_caf_def)
qed

theorem do_POST_missing_caf_witness:
  "map_of [] ''caf'' = (None :: json option) \<and>
   map_of [(''caf'', JNull)] ''caf'' = Some JNull \<and>
   map_of [(''x'', JInt 1), (''caf'', JStr [])] ''caf'' = Some (JStr []) \<and>
   do_POST ''dados/GABARITO.xlsx'' None (Body (JObj [])) = \<lparr>status = 400, body = Erro msg_formato\<rparr> \<and>
   do_POST ''dados/GABARITO.xlsx'' None (Body (JObj [(''caf'', JNull)])) = \<lparr>status = 400, body = Erro msg_formato\<rparr> \<and>
   do_POST ''dados/GABARITO.xlsx'' None (Body (JObj [(''x'', JInt 1), (''caf'', JStr [])]))
     = \<lparr>status = 400, body = Erro msg_formato\<rparr>"
  using do_POST_missing_caf [of "[]" "''dados/GABARITO.xlsx''" None]
    do_POST_missing_caf [of "[(''caf'', JNull)]" "''dados/GABARITO.xlsx''" None]
    do_POST_missing_caf [of "[(''x'', JInt 1), (''caf'', JStr [])]" "''dados/GABARITO.xlsx''" None]
  by simp

section \<open>Properties of the pattern matcher\<close>

subsection \<open>Character facts\<close>

lemma eq_icase_sym_chars:
  "eq_icase (CHR ''.'') c \<longleftrightarrow> c = CHR ''.''"
  "eq_icase (CHR ''*'') c \<longleftrightarrow> c = CHR ''*''"
  "eq_icase (CHR ''X'') c \<longleftrightarrow> c = CHR ''X'' \<or> c = CHR ''x''"
  "eq_icase (CHR ''C'') c \<longleftrightarrow> c = CHR ''C'' \<or> c = CHR ''c''"
  "eq_icase (CHR ''A'') c \<longleftrightarrow> c = CHR ''A'' \<or> c = CHR ''a''"
  "eq_icase (CHR ''F'') c \<longleftrightarrow> c = CHR ''F'' \<or> c = CHR ''f''"
  by (auto simp: eq_icase_def ascii_uppercase_def ascii_lowercase_def)

lemma re_AZ_not_space: "re_AZ c \<Longrightarrow> \<not> isspace c"
  by (auto simp: re_AZ_def isspace_def ascii_uppercase_def ascii_lowercase_def)

lemma re_digit_not_space: "re_digit c \<Longrightarrow> \<not> isspace c"
  by (auto simp: re_digit_def isspace_def)

lemma re_digit_not_star_X: "re_digit c \<Longrightarrow> c \<noteq> CHR ''*'' \<and> c \<noteq> CHR ''X'' \<and> c \<noteq> CHR ''x''"
  by (auto simp: re_digit_def)

subsection \<open>The pieces of the pattern\<close>

lemma rep_SomeD: "rep P n s = Some (g, r) \<Longrightarrow> s = g @ r \<and> length g = n \<and> list_all P g"
proof (induction n arbitrary: s g r)
  case 0
  then show ?case by simp
next
  case (Suc n)
  then show ?case
    by (cases s) (auto split: if_splits)
qed

lemma rep_append: "length g = n \<Longrightarrow> list_all P g \<Longrightarrow> rep P n (g @ r) = Some (g, r)"
proof (induction n arbitrary: g)
  case 0
  then show ?case by simp
next
  case (Suc n)
  then show ?case by (cases g) auto
qed

lemma lit_SomeD: "lit l s = Some (g, r) \<Longrightarrow> s = g @ r \<and> list_all2 eq_icase l g"
proof (induction l arbitrary: s g r)
  case Nil
  then show ?case by simp
next
  case (Cons a l)
  then show ?case
    by (cases s) (auto split: if_splits)
qed

lemma lit_append: "list_all2 eq_icase l g \<Longrightarrow> lit l (g @ r) = Some (g, r)"
proof (induction l arbitrary: g)
  case Nil
  then show ?case by simp
next
  case (Cons a l)
  then show ?case by (cases g) auto
qed

lemma ident_alt_SomeD:
  "alt (lit ''**'') (alt (lit ''XX'') (rep re_digit 2)) s = Some (g, r) \<Longrightarrow> s = g @ r \<and> ident_ok g"
  unfolding alt_def ident_ok_def
  by (auto split: option.splits dest!: lit_SomeD rep_SomeD)

lemma ident_alt_append:
  assumes "ident_ok g"
  shows "alt (lit ''**'') (alt (lit ''XX'') (rep re_digit 2)) (g @ r) = Some (g, r)"
proof -
  consider (star) "list_all2 eq_icase ''**'' g"
    | (xx) "list_all2 eq_icase ''XX'' g"
    | (dd) "length g = 2" "list_all re_digit g"
    using assms unfolding ident_ok_def by blast
  then show ?thesis
  proof cases
    case star
    then show ?thesis by (simp add: alt_def lit_append)
  next
    case xx
    then obtain a b where g: "g = [a, b]" and a: "eq_icase (CHR ''X'') a"
      by (auto simp: list_all2_Cons1)
    from a have "\<not> eq_icase (CHR ''*'') a"
      by (auto simp: eq_icase_sym_chars)
    then have "lit ''**'' (g @ r) = None"
      by (simp add: g)
    then show ?thesis
      using xx by (simp add: alt_def lit_append)
  next
    case dd
    then obtain a b where g: "g = [a, b]" and a: "re_digit a"
      by (cases g; cases "tl g") auto
    from a have "\<not> eq_icase (CHR ''*'') a" "\<not> eq_icase (CHR ''X'') a"
      using re_digit_not_star_X [of a] by (auto simp: eq_icase_sym_chars)
    then have "lit ''**'' (g @ r) = None" "lit ''XX'' (g @ r) = None"
      by (simp_all add: g)
    then show ?thesis
      using dd by (simp add: alt_def rep_append)
  qed
qed

lemma CAF_RE_match_SomeD:
  assumes "CAF_RE_match s = Some d"
  shows "fields_ok d \<and> (\<exists>caf ws. dropWhile isspace s = code_of d caf @ ws \<and>
           list_all2 eq_icase ''CAF'' caf \<and> list_all isspace ws)"
proof -
  from assms obtain uf s1 mes s2 ano s3 g4 s4 cod1 s5 g6 s6 cod2 s7 ident s8 tl5 s9 caf s10 where
    1: "rep re_AZ 2 (dropWhile isspace s) = Some (uf, s1)" and
    2: "rep re_digit 2 s1 = Some (mes, s2)" and
    3: "rep re_digit 4 s2 = Some (ano, s3)" and
    4: "lit ''.'' s3 = Some (g4, s4)" and
    5: "rep re_digit 2 s4 = Some (cod1, s5)" and
    6: "lit ''.'' s5 = Some (g6, s6)" and
    7: "rep re_digit 2 s6 = Some (cod2, s7)" and
    8: "alt (lit ''**'') (alt (lit ''XX'') (rep re_digit 2)) s7 = Some (ident, s8)" and
    9: "rep re_digit 5 s8 = Some (tl5, s9)" and
    10: "lit ''CAF'' s9 = Some (caf, s10)" and
    11: "list_all isspace s10" and
    d: "d = \<lparr>UF = uf, MES = mes, ANO = ano, COD1 = cod1, COD2 = cod2, IDENT = ident, TAIL = tl5\<rparr>"
    unfolding CAF_RE_match_def
    by (auto simp: bind_eq_Some_conv split: if_splits)
  note r = rep_SomeD [OF 1] rep_SomeD [OF 2] rep_SomeD [OF 3] rep_SomeD [OF 5] rep_SomeD [OF 7]
    rep_SomeD [OF 9] ident_alt_SomeD [OF 8] lit_SomeD [OF 10]
  from lit_SomeD [OF 4] have g4: "g4 = ''.''"
    by (auto simp: list_all2_Cons1 eq_icase_sym_chars)
  from lit_SomeD [OF 6] have g6: "g6 = ''.''"
    by (auto simp: list_all2_Cons1 eq_icase_sym_chars)
  have ok: "fields_ok d"
    using r by (simp add: fields_ok_def d)
  have "dropWhile isspace s = code_of d caf @ s10"
    using r lit_SomeD [OF 4] lit_SomeD [OF 6] by (simp add: code_of_def d g4 g6)
  with ok 11 r show ?thesis by blast
qed

lemma CAF_RE_match_code:
  assumes "fields_ok d" and "list_all2 eq_icase ''CAF'' caf" and "list_all isspace ws"
    and "list_all isspace ws0"
  shows "CAF_RE_match (ws0 @ code_of d caf @ ws) = Some (groupdict.truncate d)"
proof -
  from assms(1) obtain a b where uf: "UF d = [a, b]" and "re_AZ a"
    unfolding fields_ok_def by (cases "UF d"; cases "tl (UF d)") auto
  then have "\<not> isspace a"
    by (simp add: re_AZ_not_space)
  then have "dropWhile isspace (ws0 @ code_of d caf @ ws) = code_of d caf @ ws"
    using assms(4) by (simp add: dropWhile_append2 list_all_iff code_of_def uf)
  then show ?thesis
    using assms(1-3) unfolding CAF_RE_match_def fields_ok_def code_of_def
    by (simp add: rep_append lit_append ident_alt_append eq_icase_def groupdict.truncate_def)
qed

subsection \<open>Normalisation\<close>

lemma upper_table_range:
  "map_of (zip (ascii_lowercase @ latin1_lowercase) (ascii_uppercase @ latin1_uppercase)) c = Some u
   \<Longrightarrow> u \<in> set (ascii_uppercase @ latin1_uppercase)"
  by (rule set_zip_rightD [OF map_of_SomeD])

lemma upper_table_dom:
  "map_of (zip (ascii_lowercase @ latin1_lowercase) (ascii_uppercase @ latin1_uppercase)) c = None
   \<Longrightarrow> c \<notin> set ascii_lowercase"
proof -
  assume "map_of (zip (ascii_lowercase @ latin1_lowercase) (ascii_uppercase @ latin1_uppercase)) c = None"
  then have "c \<notin> fst ` set (zip (ascii_lowercase @ latin1_lowercase) (ascii_uppercase @ latin1_uppercase))"
    by (simp add: map_of_eq_None_iff)
  moreover have "length (ascii_lowercase @ latin1_lowercase) = length (ascii_uppercase @ latin1_uppercase)"
    by (simp add: ascii_lowercase_def latin1_lowercase_def ascii_uppercase_def latin1_uppercase_def)
  ultimately have "c \<notin> set (ascii_lowercase @ latin1_lowercase)"
    by (metis map_fst_zip set_map)
  then show ?thesis by simp
qed

lemma capitals_not_space: "u \<in> set (ascii_uppercase @ latin1_uppercase) \<Longrightarrow> \<not> isspace u"
  by (auto simp: ascii_uppercase_def latin1_uppercase_def isspace_def)

lemma capitals_not_lower: "u \<in> set (ascii_uppercase @ latin1_uppercase) \<Longrightarrow> u \<notin> set ascii_lowercase"
  by (auto simp: ascii_uppercase_def latin1_uppercase_def ascii_lowercase_def)

lemma upper_char_cases:
  obtains (ss) "c = CHR 0xDF" "upper_char c = ''SS''"
  | (cap) u where "upper_char c = [u]" "u \<in> set (ascii_uppercase @ latin1_uppercase)"
  | (same) "upper_char c = [c]" "c \<notin> set ascii_lowercase"
proof (cases "c = CHR 0xDF")
  case True
  then show ?thesis using ss by (simp add: upper_char_def)
next
  case False
  show ?thesis
  proof (cases "map_of (zip (ascii_lowercase @ latin1_lowercase) (ascii_uppercase @ latin1_uppercase)) c")
    case None
    then show ?thesis using False same upper_table_dom by (simp add: upper_char_def)
  next
    case (Some u)
    then show ?thesis using False cap upper_table_range by (simp add: upper_char_def)
  qed
qed

lemma upper_char_not_Nil: "upper_char c \<noteq> []"
  by (cases c rule: upper_char_cases) auto

lemma upper_char_space: "u \<in> set (upper_char c) \<Longrightarrow> isspace u \<Longrightarrow> isspace c"
proof (cases c rule: upper_char_cases)
  case ss
  assume "u \<in> set (upper_char c)" "isspace u"
  then show ?thesis using ss by (auto simp: isspace_def)
next
  case (cap v)
  assume "u \<in> set (upper_char c)" "isspace u"
  then show ?thesis using cap capitals_not_space by auto
next
  case same
  assume "u \<in> set (upper_char c)" "isspace u"
  then show ?thesis using same by auto
qed

lemma upper_char_no_lower: "u \<in> set (upper_char c) \<Longrightarrow> u \<notin> set ascii_lowercase"
proof (cases c rule: upper_char_cases)
  case ss
  assume "u \<in> set (upper_char c)"
  then show ?thesis using ss by (auto simp: ascii_lowercase_def)
next
  case (cap v)
  assume "u \<in> set (upper_char c)"
  then show ?thesis using cap capitals_not_lower by auto
next
  case same
  assume "u \<in> set (upper_char c)"
  then show ?thesis using same by auto
qed

lemma upper_no_lower: "u \<in> set (upper s) \<Longrightarrow> u \<notin> set ascii_lowercase"
  by (auto simp: upper_def dest: upper_char_no_lower)

lemma replace_space_no_lower: "u \<in> set (replace_space (upper s)) \<Longrightarrow> u \<notin> set ascii_lowercase"
  by (auto simp: replace_space_def dest: upper_no_lower)

lemma upper_Cons: "upper (c # s) = upper_char c @ upper s"
  by (simp add: upper_def)

lemma upper_snoc: "upper (s @ [c]) = upper s @ upper_char c"
  by (simp add: upper_def)

lemma ends_ok_strip: "ends_ok (strip s)"
proof (cases "strip s = []")
  case True
  then show ?thesis by (simp add: ends_ok_def)
next
  case False
  let ?d = "dropWhile isspace s"
  let ?e = "dropWhile isspace (rev ?d)"
  from False have e: "?e \<noteq> []"
    by (simp add: strip_def)
  then have "\<not> isspace (hd ?e)"
    by (rule hd_dropWhile)
  then have l: "\<not> isspace (last (strip s))"
    using e by (simp add: strip_def last_rev)
  have d: "?d \<noteq> []"
  proof
    assume "?d = []"
    then have "?e = []"
      by (simp only: rev.simps dropWhile.simps)
    with e show False by (simp only:)
  qed
  then have hd: "\<not> isspace (hd ?d)"
    by (rule hd_dropWhile)
  have "last (takeWhile isspace (rev ?d) @ ?e) = last ?e"
    using e by (rule last_appendR)
  then have "last (rev ?d) = last ?e"
    by (simp only: takeWhile_dropWhile_id)
  moreover have "last (rev ?d) = hd ?d"
    using d by (simp only: last_rev)
  moreover have "hd (rev ?e) = last ?e"
    using e by (simp only: hd_rev)
  ultimately have "hd (strip s) = hd ?d"
    by (simp only: strip_def)
  with hd l show ?thesis by (simp add: ends_ok_def)
qed

lemma ends_ok_upper: "ends_ok s \<Longrightarrow> ends_ok (upper s)"
proof (cases "s = []")
  case True
  then show ?thesis by (simp add: upper_def ends_ok_def)
next
  case False
  assume ok: "ends_ok s"
  from False obtain c cs where s1: "s = c # cs" by (cases s) auto
  from False obtain bs b where s2: "s = bs @ [b]" by (cases s rule: rev_cases) auto
  from ok s1 have c: "\<not> isspace c" by (simp add: ends_ok_def)
  from ok s2 have b: "\<not> isspace b" by (simp add: ends_ok_def)
  have "hd (upper s) = hd (upper_char c)"
    by (simp add: s1 upper_Cons upper_char_not_Nil)
  then have "hd (upper s) \<in> set (upper_char c)"
    by (simp add: upper_char_not_Nil)
  then have h: "\<not> isspace (hd (upper s))"
    using c upper_char_space by blast
  have "last (upper s) = last (upper_char b)"
    by (simp add: s2 upper_snoc upper_char_not_Nil)
  then have "last (upper s) \<in> set (upper_char b)"
    by (simp add: upper_char_not_Nil)
  then have "\<not> isspace (last (upper s))"
    using b upper_char_space by blast
  with h show ?thesis by (simp add: ends_ok_def)
qed

lemma isspace_space: "isspace (CHR '' '')"
  by (simp add: isspace_def)

lemma ends_ok_replace_space: "ends_ok s \<Longrightarrow> ends_ok (replace_space s)"
proof (cases "s = []")
  case True
  then show ?thesis by (simp add: replace_space_def ends_ok_def)
next
  case False
  assume ok: "ends_ok s"
  from False obtain c cs where s1: "s = c # cs" by (cases s) auto
  from False obtain bs b where s2: "s = bs @ [b]" by (cases s rule: rev_cases) auto
  from ok s1 have c: "\<not> isspace c" by (simp add: ends_ok_def)
  from ok s2 have b: "\<not> isspace b" by (simp add: ends_ok_def)
  from c have c': "c \<noteq> CHR '' ''" using isspace_space by auto
  from b have b': "b \<noteq> CHR '' ''" using isspace_space by auto
  have "hd (replace_space s) = c"
    using c' by (simp add: s1 replace_space_def)
  moreover have "last (replace_space s) = b"
    using b' by (simp add: s2 replace_space_def)
  ultimately show ?thesis using b c by (simp add: ends_ok_def)
qed

lemma ends_ok_normal: "ends_ok (replace_space (upper (strip s)))"
  by (intro ends_ok_replace_space ends_ok_upper ends_ok_strip)

lemma ends_ok_dropWhile: "ends_ok s \<Longrightarrow> dropWhile isspace s = s"
  by (cases s) (auto simp: ends_ok_def)

lemma caf_lowercase:
  "CHR ''c'' \<in> set ascii_lowercase" "CHR ''a'' \<in> set ascii_lowercase"
  "CHR ''f'' \<in> set ascii_lowercase"
  by (simp_all add: ascii_lowercase_def)

lemma CAF_icase_upper:
  assumes "list_all2 eq_icase ''CAF'' caf" and "\<forall>u\<in>set caf. u \<notin> set ascii_lowercase"
  shows "caf = ''CAF''"
proof -
  from assms(1) obtain a b c where caf: "caf = [a, b, c]"
    and "eq_icase (CHR ''C'') a" "eq_icase (CHR ''A'') b" "eq_icase (CHR ''F'') c"
    by (auto simp: list_all2_Cons1)
  then have abc: "a = CHR ''C'' \<or> a = CHR ''c''" "b = CHR ''A'' \<or> b = CHR ''a''"
    "c = CHR ''F'' \<or> c = CHR ''f''"
    by (simp_all only: eq_icase_sym_chars)
  from assms(2) have "a \<notin> set ascii_lowercase" "b \<notin> set ascii_lowercase"
    "c \<notin> set ascii_lowercase"
    by (simp_all add: caf)
  with abc caf_lowercase have "a = CHR ''C''" "b = CHR ''A''" "c = CHR ''F''"
    by blast+
  then show ?thesis by (simp add: caf)
qed

lemma code_of_not_Nil: "fields_ok d \<Longrightarrow> code_of d caf \<noteq> []"
  by (auto simp: fields_ok_def code_of_def)

lemma match_normal:
  assumes "CAF_RE_match n = Some d" and "ends_ok n" and "\<forall>u\<in>set n. u \<notin> set ascii_lowercase"
  shows "fields_ok d \<and> n = code_of d ''CAF''"
proof -
  from CAF_RE_match_SomeD [OF assms(1)] obtain caf ws where
    ok: "fields_ok d" and n: "dropWhile isspace n = code_of d caf @ ws" and
    caf: "list_all2 eq_icase ''CAF'' caf" and ws: "list_all isspace ws"
    by blast
  from n assms(2) have n': "n = code_of d caf @ ws"
    by (simp add: ends_ok_dropWhile)
  have "ws = []"
  proof (rule ccontr)
    assume "ws \<noteq> []"
    then have "last n = last ws" "last ws \<in> set ws"
      by (simp_all add: n')
    then have "isspace (last n)"
      using ws by (simp add: list_all_iff)
    moreover have "n \<noteq> []"
      using \<open>ws \<noteq> []\<close> n' by simp
    ultimately show False
      using assms(2) by (simp add: ends_ok_def)
  qed
  moreover have "set caf \<subseteq> set n"
    by (auto simp: n' code_of_def)
  then have "caf = ''CAF''"
    using caf assms(3) by (intro CAF_icase_upper) auto
  ultimately show ?thesis using ok n' by simp
qed

lemma extend_fields:
  "UF (groupdict.extend d (parsed.fields n)) = UF d"
  "MES (groupdict.extend d (parsed.fields n)) = MES d"
  "ANO (groupdict.extend d (parsed.fields n)) = ANO d"
  "COD1 (groupdict.extend d (parsed.fields n)) = COD1 d"
  "COD2 (groupdict.extend d (parsed.fields n)) = COD2 d"
  "IDENT (groupdict.extend d (parsed.fields n)) = IDENT d"
  "TAIL (groupdict.extend d (parsed.fields n)) = TAIL d"
  "CAF_NORMALIZADO (groupdict.extend d (parsed.fields n)) = n"
  "groupdict.truncate (groupdict.extend d (parsed.fields n)) = d"
  by (cases d; simp add: groupdict.defs parsed.defs)+

lemma parse_caf_SomeD:
  assumes "parse_caf s = Some p"
  shows "fields_ok p \<and> CAF_NORMALIZADO p = replace_space (upper (strip s)) \<and>
         CAF_NORMALIZADO p = code_of p ''CAF'' \<and>
         CAF_RE_match (CAF_NORMALIZADO p) = Some (groupdict.truncate p)"
proof -
  let ?n = "replace_space (upper (strip s))"
  from assms obtain d where d: "CAF_RE_match ?n = Some d"
    and p: "p = groupdict.extend d (parsed.fields ?n)"
    by (auto simp: parse_caf_def Let_def split: if_splits option.splits)
  have low: "\<forall>u\<in>set ?n. u \<notin> set ascii_lowercase"
    using replace_space_no_lower by blast
  from match_normal [OF d ends_ok_normal low]
  have ok: "fields_ok d" and n: "?n = code_of d ''CAF''"
    by blast+
  have "fields_ok p"
    using ok by (simp add: fields_ok_def p extend_fields)
  moreover have "CAF_NORMALIZADO p = ?n"
    by (simp add: p extend_fields)
  moreover have "code_of p ''CAF'' = code_of d ''CAF''"
    by (simp add: code_of_def p extend_fields)
  moreover have "groupdict.truncate p = d"
    by (simp add: p extend_fields)
  ultimately show ?thesis using d n by simp
qed

text \<open>
  C4. When \<open>parse_caf\<close> succeeds, the fields put together as
  UF MES ANO . COD1 . COD2 IDENT TAIL CAF are the normalised string stored in the record,
  which is the input stripped, upper-cased and with its spaces removed.
\<close>

theorem parse_caf_reconstruct:
  assumes "parse_caf caf = Some p"
  shows "UF p @ MES p @ ANO p @ ''.'' @ COD1 p @ ''.'' @ COD2 p @ IDENT p @ TAIL p @ ''CAF''
           = CAF_NORMALIZADO p \<and>
         CAF_NORMALIZADO p = replace_space (upper (strip caf))"
proof -
  from parse_caf_SomeD [OF assms]
  have c: "CAF_NORMALIZADO p = code_of p ''CAF''"
    and n: "CAF_NORMALIZADO p = replace_space (upper (strip caf))"
    by blast+
  from c have "UF p @ MES p @ ANO p @ ''.'' @ COD1 p @ ''.'' @ COD2 p @ IDENT p @ TAIL p @ ''CAF''
      = CAF_NORMALIZADO p"
    unfolding code_of_def by (rule sym)
  then show ?thesis using n by (rule conjI)
qed

section \<open>Properties of the spreadsheet reader\<close>

subsection \<open>Decimal digits\<close>

lemma digit_cases: "a < 10 \<Longrightarrow> a \<in> {0, 1, 2, 3, 4, 5, 6, 7, 8, 9::nat}"
  by auto

lemma digit_char_digit: "a < 10 \<Longrightarrow> re_digit (digit_char a)"
  by (drule digit_cases) (auto simp: digit_char_def re_digit_def)

lemma digit_val_digit_char: "a < 10 \<Longrightarrow> digit_val (digit_char a) = int a"
  by (drule digit_cases) (auto simp: digit_char_def digit_val_def)

lemma re_digit_plain:
  "re_digit c \<Longrightarrow> c \<noteq> CHR ''_'' \<and> c \<noteq> CHR ''-'' \<and> c \<noteq> CHR ''+'' \<and> c \<noteq> CHR '' ''"
  by (auto simp: re_digit_def)

lemma py_int_str_two_digits:
  assumes "re_digit a" and "re_digit b"
  shows "py_int_str [a, b] = Some (10 * digit_val a + digit_val b)"
proof -
  have "\<not> int_space a" "\<not> int_space b"
    using assms by (auto simp: re_digit_def int_space_def)
  then have "int_strip [a, b] = [a, b]"
    by (simp add: int_strip_def)
  moreover have "int_digits [a, b] = Some (10 * digit_val a + digit_val b)"
    using assms re_digit_plain [of a] re_digit_plain [of b]
    by (simp add: int_digits_def max_str_digits_def)
  ultimately show ?thesis
    using re_digit_plain [OF assms(1)] by (simp add: py_int_str_def)
qed

lemma fmt02d_two_digits:
  assumes "0 \<le> n" and "n \<le> 99"
  shows "fmt02d n = [digit_char (nat n div 10), digit_char (nat n mod 10)]"
proof (cases "nat n < 10")
  case True
  then have "str_nat (nat n) = [digit_char (nat n)]"
    by (simp add: str_nat.simps)
  moreover have "digit_char 0 = CHR ''0''"
    by (simp add: digit_char_def)
  ultimately show ?thesis
    using True assms by (simp add: fmt02d_def zfill_def)
next
  case False
  have "nat n div 10 < 10"
    using assms by simp
  then have "str_nat (nat n div 10) = [digit_char (nat n div 10)]"
    by (simp add: str_nat.simps)
  then have "str_nat (nat n) = [digit_char (nat n div 10), digit_char (nat n mod 10)]"
    using False by (subst str_nat.simps) simp
  then show ?thesis
    using assms by (simp add: fmt02d_def zfill_def)
qed

lemma fmt02d_digits:
  assumes "0 \<le> n" and "n \<le> 99"
  shows "\<exists>a b. fmt02d n = [a, b] \<and> re_digit a \<and> re_digit b"
proof -
  have "nat n div 10 < 10" "nat n mod 10 < 10"
    using assms by simp_all
  then show ?thesis
    using fmt02d_two_digits [OF assms] digit_char_digit by blast
qed

lemma py_int_str_fmt02d:
  assumes "0 \<le> n" and "n \<le> 99"
  shows "py_int_str (fmt02d n) = Some n"
proof -
  have lt: "nat n div 10 < 10" "nat n mod 10 < 10"
    using assms by simp_all
  have "py_int_str (fmt02d n) =
      Some (10 * digit_val (digit_char (nat n div 10)) + digit_val (digit_char (nat n mod 10)))"
    unfolding fmt02d_two_digits [OF assms]
    by (rule py_int_str_two_digits) (simp_all add: digit_char_digit lt)
  also have "\<dots> = Some (10 * int (nat n div 10) + int (nat n mod 10))"
    by (simp only: digit_val_digit_char lt)
  also have "\<dots> = Some n"
  proof -
    have "int (nat n div 10) = n div 10" "int (nat n mod 10) = n mod 10"
      using assms by (simp_all add: of_nat_div of_nat_mod)
    then show ?thesis by simp
  qed
  finally show ?thesis .
qed

lemma fmt02d_inj:
  assumes "0 \<le> m" "m \<le> 99" "0 \<le> n" "n \<le> 99" "fmt02d m = fmt02d n"
  shows "m = n"
proof -
  have "py_int_str (fmt02d m) = py_int_str (fmt02d n)"
    using assms(5) by simp
  then show ?thesis
    using assms(1-4) by (simp add: py_int_str_fmt02d)
qed

subsection \<open>The loop over the rows\<close>

lemma row_id_Some:
  "row_id mes ano row = Some n \<longleftrightarrow>
     row_matches mes ano row \<and> row_ident row = Some n \<and> 0 \<le> n \<and> n \<le> 99"
  by (auto simp: row_id_def split: option.splits)

lemma scan_rows_step:
  assumes "3 \<le> length row"
  shows "scan_rows mes ano (row # rows) (vistos, ids) =
     (case row_id mes ano row of
        None \<Rightarrow> scan_rows mes ano rows (vistos, ids)
      | Some n \<Rightarrow>
          if fmt02d n \<notin> vistos
          then scan_rows mes ano rows (insert (fmt02d n) vistos, ids @ [fmt02d n])
          else scan_rows mes ano rows (vistos, ids))"
proof -
  have "row_get row 1 = Inr (row ! 1)" "row_get row 2 = Inr (row ! 2)"
    using assms by (simp_all add: row_get_def)
  then show ?thesis
    by (simp add: row_id_def row_matches_def row_ident_def Let_def split: option.splits)
qed

lemma fmt02d_mem:
  assumes "in_range ms" and "0 \<le> n" and "n \<le> 99"
  shows "fmt02d n \<in> set (map fmt02d ms) \<longleftrightarrow> n \<in> set ms"
  using assms fmt02d_inj unfolding in_range_def by auto

lemma scan_rows_result:
  assumes "\<forall>row\<in>set rows. 3 \<le> length row" and "in_range ms" and "distinct ms"
  shows "\<exists>ms'. scan_rows mes ano rows (set (map fmt02d ms), map fmt02d ms)
           = Inr (set (map fmt02d ms'), map fmt02d ms') \<and>
         in_range ms' \<and> distinct ms' \<and>
         set ms' = set ms \<union> {n. \<exists>row\<in>set rows. row_id mes ano row = Some n}"
  using assms
proof (induction rows arbitrary: ms)
  case Nil
  have "scan_rows mes ano [] (set (map fmt02d ms), map fmt02d ms)
      = Inr (set (map fmt02d ms), map fmt02d ms)"
    by simp
  moreover have "set ms = set ms \<union> {n. \<exists>row\<in>set []. row_id mes ano row = Some n}"
    by simp
  ultimately show ?case
    using Nil.prems(2,3) by blast
next
  case (Cons row rows)
  then have len: "3 \<le> length row" and rest: "\<forall>row\<in>set rows. 3 \<le> length row"
    by simp_all
  note step = scan_rows_step [OF len, of mes ano rows "set (map fmt02d ms)" "map fmt02d ms"]
  show ?case
  proof (cases "row_id mes ano row")
    case None
    from Cons.IH [OF rest Cons.prems(2,3)] obtain ms' where
      a: "scan_rows mes ano rows (set (map fmt02d ms), map fmt02d ms)
         = Inr (set (map fmt02d ms'), map fmt02d ms')" and
      b: "in_range ms'" "distinct ms'" and
      d: "set ms' = set ms \<union> {n. \<exists>row\<in>set rows. row_id mes ano row = Some n}"
      by blast
    have "scan_rows mes ano (row # rows) (set (map fmt02d ms), map fmt02d ms)
        = Inr (set (map fmt02d ms'), map fmt02d ms')"
      unfolding step None using a by (simp only: option.case)
    moreover have "set ms' = set ms \<union> {n. \<exists>row\<in>set (row # rows). row_id mes ano row = Some n}"
      using d None by auto
    ultimately show ?thesis
      using b by blast
  next
    case (Some n)
    then have n: "0 \<le> n" "n \<le> 99"
      by (simp_all add: row_id_Some)
    show ?thesis
    proof (cases "n \<in> set ms")
      case True
      from Cons.IH [OF rest Cons.prems(2,3)] obtain ms' where
        a: "scan_rows mes ano rows (set (map fmt02d ms), map fmt02d ms)
           = Inr (set (map fmt02d ms'), map fmt02d ms')" and
        b: "in_range ms'" "distinct ms'" and
        d: "set ms' = set ms \<union> {n. \<exists>row\<in>set rows. row_id mes ano row = Some n}"
        by blast
      have mem: "fmt02d n \<in> set (map fmt02d ms)"
        using True by simp
      have "scan_rows mes ano (row # rows) (set (map fmt02d ms), map fmt02d ms)
          = Inr (set (map fmt02d ms'), map fmt02d ms')"
        unfolding step Some using a mem by (simp only: option.case simp_thms if_False)
      moreover have "set ms' = set ms \<union> {n. \<exists>row\<in>set (row # rows). row_id mes ano row = Some n}"
        using d Some True by auto
      ultimately show ?thesis
        using b by blast
    next
      case False
      have r: "in_range (ms @ [n])" and dd: "distinct (ms @ [n])"
        using Cons.prems(2,3) n False by (simp_all add: in_range_def)
      from Cons.IH [OF rest r dd] obtain ms' where
        a: "scan_rows mes ano rows (set (map fmt02d (ms @ [n])), map fmt02d (ms @ [n]))
           = Inr (set (map fmt02d ms'), map fmt02d ms')" and
        b: "in_range ms'" "distinct ms'" and
        d: "set ms' = set (ms @ [n]) \<union> {n. \<exists>row\<in>set rows. row_id mes ano row = Some n}"
        by blast
      have mem: "fmt02d n \<notin> set (map fmt02d ms)"
        using False fmt02d_mem [OF Cons.prems(2) n] by simp
      have e: "insert (fmt02d n) (set (map fmt02d ms)) = set (map fmt02d (ms @ [n]))"
        "map fmt02d ms @ [fmt02d n] = map fmt02d (ms @ [n])"
        by simp_all
      have "scan_rows mes ano (row # rows) (set (map fmt02d ms), map fmt02d ms)
          = Inr (set (map fmt02d ms'), map fmt02d ms')"
        unfolding step Some using a mem by (simp only: option.case simp_thms if_True e)
      moreover have "set ms' = set ms \<union> {n. \<exists>row\<in>set (row # rows). row_id mes ano row = Some n}"
        using d Some by auto
      ultimately show ?thesis
        using b by blast
    qed
  qed
qed

subsection \<open>The sort\<close>

lemma those_py_int_str: "in_range ms \<Longrightarrow> those (map py_int_str (map fmt02d ms)) = Some ms"
  by (induction ms) (simp_all add: in_range_def py_int_str_fmt02d)

lemma insort_key_pair:
  "insort_key fst (m, f m) (map (\<lambda>m. (m, f m)) ms) = map (\<lambda>m. (m, f m)) (insort_key (\<lambda>x. x) m ms)"
  by (induction ms) simp_all

lemma sort_key_pair:
  "sort_key fst (map (\<lambda>m. (m, f m)) ms) = map (\<lambda>m. (m, f m)) (sort_key (\<lambda>x. x) ms)"
  by (induction ms) (simp_all add: insort_key_pair)

lemma sort_by_int_fmt02d:
  assumes "in_range ms"
  shows "sort_by_int (map fmt02d ms) = Inr (map fmt02d (sort_key (\<lambda>x. x) ms))"
proof -
  have "zip ms (map fmt02d ms) = map (\<lambda>m. (m, fmt02d m)) ms"
    by (induction ms) simp_all
  then have "map snd (sort_key fst (zip ms (map fmt02d ms))) = map fmt02d (sort_key (\<lambda>x. x) ms)"
    by (simp add: sort_key_pair comp_def)
  then show ?thesis
    by (simp only: sort_by_int_def those_py_int_str [OF assms] option.case)
qed

lemma ler_result:
  assumes "\<forall>row\<in>set (drop 1 ws). 3 \<le> length row"
  shows "\<exists>ns. ler_identificadores_unicos_ordenados PLANILHA (Some ws) mes ano = Inr (map fmt02d ns) \<and>
           sorted ns \<and> distinct ns \<and> in_range ns \<and> set ns = ids_of mes ano ws"
proof -
  have "in_range []" "distinct ([] :: int list)"
    by (simp_all add: in_range_def)
  from scan_rows_result [OF assms this, of mes ano] obtain ms where
    scan: "scan_rows mes ano (drop 1 ws) ({}, []) = Inr (set (map fmt02d ms), map fmt02d ms)" and
    ms: "in_range ms" "distinct ms"
      "set ms = {n. \<exists>row\<in>set (drop 1 ws). row_id mes ano row = Some n}"
    by auto
  let ?ns = "sort_key (\<lambda>x. x) ms"
  have "ler_identificadores_unicos_ordenados PLANILHA (Some ws) mes ano = Inr (map fmt02d ?ns)"
    by (simp only: ler_identificadores_unicos_ordenados_def option.case scan sum.case prod.case
        sort_by_int_fmt02d [OF ms(1)])
  moreover have "sorted ?ns" "distinct ?ns" "in_range ?ns"
    using ms(1,2) by (simp_all add: in_range_def)
  moreover have "set ?ns = ids_of mes ano ws"
    using ms(3) by (auto simp: ids_of_def row_id_Some)
  ultimately show ?thesis by blast
qed

lemmas ler_eval =
  ler_identificadores_unicos_ordenados_def row_get_def mes_ok_def ano_ok_def ident_int_def
  py_int_def py_int_str_def int_digits_def fmt02d_def zfill_def str_int_def str_nat.simps
  digit_char_def digit_val_def sort_by_int_def strip_def isspace_def re_digit_def Let_def
  int_strip_def int_space_def max_str_digits_def py_str_int_def py_fmt02d_def

lemma coercion_examples:
  "mes_ok (CStr [CHR 0x1F, CHR ''3'']) = None"
  "mes_ok (CStr [CHR 0xA0, CHR ''3'', CHR 0x09]) = Some ''03''"
  "mes_ok (CFloat (FFinite 7 (- 1))) = Some ''03''"
  "mes_ok (CBool True) = Some ''01''"
  "ano_ok (CStr ''02_025'') = Some ''2025''"
  "ident_int (CStr [CHR 0x1F, CHR ''3'']) = Some 3"
  "ident_int (CStr '' +07 '') = Some 7"
  "ident_int (CFloat (FFinite 5 0)) = None"
  "ident_int (CBool True) = None"
  "ident_int CNone = None"
  by (simp_all add: ler_eval int_of_float_def)

lemma ex_sheet_ids:
  "ler_identificadores_unicos_ordenados ''dados/GABARITO.xlsx'' (Some ex_sheet) ''03'' ''2025''
     = Inr [''05'', ''07'', ''12'']"
  by (simp add: ex_sheet_def ler_eval)

text \<open>
  C1 says that for every dataset the reader returns the duplicate-free, ascending sequence
  of the two-digit identifiers of the rows whose month and year are the requested ones. A
  sheet of two columns has no row with a year or an identifier, so that sequence is empty;
  the reader raises IndexError at \<open>row[2]\<close> of the first data row instead. This is the
  defect of C6: \<open>row[5]\<close> is read under \<open>len(row) >= 6\<close>, \<open>row[1]\<close> and
  \<open>row[2]\<close> are not guarded. On a sheet whose data rows have three cells or more the
  reader does return such a sequence (\<open>ler_result\<close>, and \<open>ex_sheet_ids\<close> for the
  example of the spec).
\<close>

theorem ler_narrow_sheet_raises:
  "ler_identificadores_unicos_ordenados ''dados/GABARITO.xlsx''
     (Some [ [CStr ''uf'', CStr ''mes''], [CStr ''BA'', CInt 4], [CStr ''SP'', CInt 3] ]) ''03'' ''2025''
     = Inl (IndexError, ''tuple index out of range'')"
  by (simp add: ler_identificadores_unicos_ordenados_def row_get_def)

text \<open>
  C6 says that a row with fewer cells than expected is skipped without an error. On a sheet
  of two columns the loop reads \<open>row[2]\<close> of the first data row and the IndexError
  leaves the function.
\<close>

theorem ler_short_row_raises:
  "ler_identificadores_unicos_ordenados ''dados/GABARITO.xlsx''
     (Some [ [CStr ''uf'', CStr ''mes''], [CStr ''BA'', CInt 3], [CStr ''BA'', CInt 3] ]) ''03'' ''2025''
     = Inl (IndexError, ''tuple index out of range'')"
  by (simp add: ler_identificadores_unicos_ordenados_def row_get_def)

section \<open>Combos are codes\<close>

subsection \<open>Evaluating \<open>parse_caf\<close> on concrete strings\<close>

lemmas parse_eval =
  isspace_def upper_char_def upper_def strip_def replace_space_def re_digit_def re_AZ_def
  eq_icase_def alt_def CAF_RE_match_def parse_caf_def ascii_lowercase_def ascii_uppercase_def
  latin1_lowercase_def latin1_uppercase_def eval_nat_numeral groupdict.defs parsed.defs

lemma parse_caf_example:
  "parse_caf '' ba 032025.01.00xx39367caf '' = Some (ex_parsed ''XX'')"
  by (simp add: parse_eval ex_parsed_def)

theorem parse_caf_reconstruct_witness:
  "parse_caf '' ba 032025.01.00xx39367caf '' = Some (ex_parsed ''XX'') \<and>
   UF (ex_parsed ''XX'') @ MES (ex_parsed ''XX'') @ ANO (ex_parsed ''XX'') @ ''.'' @
     COD1 (ex_parsed ''XX'') @ ''.'' @ COD2 (ex_parsed ''XX'') @ IDENT (ex_parsed ''XX'') @
     TAIL (ex_parsed ''XX'') @ ''CAF'' = ''BA032025.01.00XX39367CAF'' \<and>
   replace_space (upper (strip '' ba 032025.01.00xx39367caf '')) = ''BA032025.01.00XX39367CAF''"
proof -
  have n: "CAF_NORMALIZADO (ex_parsed ''XX'') = ''BA032025.01.00XX39367CAF''"
    by (simp add: ex_parsed_def)
  note r = parse_caf_reconstruct [OF parse_caf_example]
  note a = conjunct1 [OF r, unfolded n] and b = conjunct2 [OF r, unfolded n, symmetric]
  from parse_caf_example a b show ?thesis
    by (intro conjI)
qed

subsection \<open>The alphabet of a normalised code\<close>

lemma upper_table_None:
  assumes "c \<notin> set (ascii_lowercase @ latin1_lowercase)"
  shows "map_of (zip (ascii_lowercase @ latin1_lowercase) (ascii_uppercase @ latin1_uppercase)) c = None"
proof -
  have "length (ascii_lowercase @ latin1_lowercase) = length (ascii_uppercase @ latin1_uppercase)"
    by (simp add: ascii_lowercase_def latin1_lowercase_def ascii_uppercase_def latin1_uppercase_def)
  then have "map fst (zip (ascii_lowercase @ latin1_lowercase) (ascii_uppercase @ latin1_uppercase))
      = ascii_lowercase @ latin1_lowercase"
    by (rule map_fst_zip)
  then have "fst ` set (zip (ascii_lowercase @ latin1_lowercase) (ascii_uppercase @ latin1_uppercase))
      = set (ascii_lowercase @ latin1_lowercase)"
    by (metis set_map)
  with assms show ?thesis
    by (simp only: map_of_eq_None_iff not_False_eq_True)
qed

lemma code_char_not_small:
  "code_char c \<Longrightarrow> c \<notin> set (ascii_lowercase @ latin1_lowercase) \<and> c \<noteq> CHR 0xDF"
  unfolding code_char_def re_digit_def ascii_uppercase_def ascii_lowercase_def latin1_lowercase_def
  by auto

lemma code_char_upper: "code_char c \<Longrightarrow> upper_char c = [c]"
  using code_char_not_small [of c] upper_table_None [of c] by (simp add: upper_char_def)

lemma code_char_not_space: "code_char c \<Longrightarrow> \<not> isspace c"
  unfolding code_char_def re_digit_def ascii_uppercase_def isspace_def by auto

lemma code_char_not_lower: "code_char c \<Longrightarrow> c \<notin> set ascii_lowercase"
  using code_char_not_small [of c] by simp

lemma re_AZ_code_char: "re_AZ c \<Longrightarrow> c \<notin> set ascii_lowercase \<Longrightarrow> code_char c"
  by (auto simp: re_AZ_def code_char_def)

lemma re_digit_code_char: "re_digit c \<Longrightarrow> code_char c"
  by (simp add: code_char_def)

lemma ident_ok_code_char:
  assumes "ident_ok i" and "\<forall>c\<in>set i. c \<notin> set ascii_lowercase"
  shows "\<forall>c\<in>set i. code_char c"
proof -
  consider (star) "list_all2 eq_icase ''**'' i"
    | (xx) "list_all2 eq_icase ''XX'' i"
    | (dd) "list_all re_digit i"
    using assms(1) unfolding ident_ok_def by blast
  then show ?thesis
  proof cases
    case star
    then have "i = ''**''"
      by (auto simp: list_all2_Cons1 eq_icase_sym_chars)
    then show ?thesis by (simp add: code_char_def)
  next
    case xx
    then obtain a b where i: "i = [a, b]" and
      "a = CHR ''X'' \<or> a = CHR ''x''" "b = CHR ''X'' \<or> b = CHR ''x''"
      by (auto simp: list_all2_Cons1 eq_icase_sym_chars)
    moreover have "CHR ''x'' \<in> set ascii_lowercase"
      by (simp add: ascii_lowercase_def)
    ultimately have "a = CHR ''X''" "b = CHR ''X''"
      using assms(2) by auto
    then show ?thesis
      by (simp add: i code_char_def ascii_uppercase_def)
  next
    case dd
    then show ?thesis
      by (simp add: list_all_iff re_digit_code_char)
  qed
qed

lemma CAF_code_char: "\<forall>c\<in>set ''CAF''. code_char c"
  by (simp add: code_char_def ascii_uppercase_def)

lemma dot_code_char: "code_char (CHR ''.'')"
  by (simp add: code_char_def)

lemma code_of_code_char:
  assumes "fields_ok d" and "\<forall>c\<in>set (code_of d ''CAF''). c \<notin> set ascii_lowercase"
  shows "\<forall>c\<in>set (code_of d ''CAF''). code_char c"
proof -
  from assms(2) have low: "\<forall>c\<in>set (UF d). c \<notin> set ascii_lowercase"
    "\<forall>c\<in>set (IDENT d). c \<notin> set ascii_lowercase"
    by (simp_all add: code_of_def)
  from assms(1) have "\<forall>c\<in>set (UF d). re_AZ c"
    by (simp add: fields_ok_def list_all_iff)
  with low(1) have uf: "\<forall>c\<in>set (UF d). code_char c"
    using re_AZ_code_char by blast
  from assms(1) have "ident_ok (IDENT d)"
    by (simp add: fields_ok_def)
  then have ident: "\<forall>c\<in>set (IDENT d). code_char c"
    using low(2) by (rule ident_ok_code_char)
  from assms(1) have "\<forall>c\<in>set (MES d) \<union> set (ANO d) \<union> set (COD1 d) \<union> set (COD2 d) \<union> set (TAIL d).
      re_digit c"
    by (auto simp: fields_ok_def list_all_iff)
  then have digs: "\<forall>c\<in>set (MES d) \<union> set (ANO d) \<union> set (COD1 d) \<union> set (COD2 d) \<union> set (TAIL d).
      code_char c"
    using re_digit_code_char by blast
  show ?thesis
    using uf ident digs CAF_code_char dot_code_char by (auto simp: code_of_def)
qed

lemma parse_caf_code_chars:
  assumes "parse_caf s = Some p"
  shows "\<forall>c\<in>set (code_of p ''CAF''). code_char c"
proof -
  from parse_caf_SomeD [OF assms] have ok: "fields_ok p"
    and n: "CAF_NORMALIZADO p = replace_space (upper (strip s))"
    and c: "CAF_NORMALIZADO p = code_of p ''CAF''"
    by blast+
  have "\<forall>u\<in>set (code_of p ''CAF''). u \<notin> set ascii_lowercase"
    using replace_space_no_lower [of _ "strip s"] unfolding c [symmetric] n by blast
  with ok show ?thesis by (rule code_of_code_char)
qed

subsection \<open>A code over the alphabet parses to itself\<close>

lemma dropWhile_none: "\<forall>x\<in>set s. \<not> P x \<Longrightarrow> dropWhile P s = s"
  by (cases s) simp_all

lemma strip_no_space:
  assumes "\<forall>x\<in>set s. \<not> isspace x"
  shows "strip s = s"
proof -
  have "dropWhile isspace s = s"
    using assms by (rule dropWhile_none)
  moreover have "dropWhile isspace (rev s) = rev s"
    using assms by (intro dropWhile_none) simp
  ultimately show ?thesis
    by (simp only: strip_def rev_rev_ident)
qed

lemma upper_fixed: "\<forall>x\<in>set s. upper_char x = [x] \<Longrightarrow> upper s = s"
  by (induction s) (simp_all add: upper_def)

lemma replace_space_fixed: "\<forall>x\<in>set s. x \<noteq> CHR '' '' \<Longrightarrow> replace_space s = s"
  by (simp add: replace_space_def filter_id_conv)

lemma normal_fixed:
  assumes "\<forall>c\<in>set s. code_char c"
  shows "replace_space (upper (strip s)) = s"
proof -
  have "\<forall>x\<in>set s. \<not> isspace x"
    using assms code_char_not_space by blast
  then have 1: "strip s = s"
    by (rule strip_no_space)
  have "\<forall>x\<in>set s. upper_char x = [x]"
    using assms code_char_upper by blast
  then have 2: "upper s = s"
    by (rule upper_fixed)
  have "\<forall>x\<in>set s. x \<noteq> CHR '' ''"
    using assms code_char_not_space isspace_space by blast
  then have 3: "replace_space s = s"
    by (rule replace_space_fixed)
  show ?thesis
    by (simp only: 1 2 3)
qed

lemma CAF_icase_refl: "list_all2 eq_icase ''CAF'' ''CAF''"
  by (simp add: eq_icase_def)

lemma parse_caf_code:
  assumes "fields_ok d" and "\<forall>c\<in>set (code_of d ''CAF''). code_char c"
  shows "parse_caf (code_of d ''CAF'')
    = Some (groupdict.extend (groupdict.truncate d) (parsed.fields (code_of d ''CAF'')))"
proof -
  have "CAF_RE_match ([] @ code_of d ''CAF'' @ []) = Some (groupdict.truncate d)"
    using assms(1) CAF_icase_refl by (rule CAF_RE_match_code) simp_all
  then have m: "CAF_RE_match (code_of d ''CAF'') = Some (groupdict.truncate d)"
    by simp
  have ne: "code_of d ''CAF'' \<noteq> []"
    using assms(1) by (rule code_of_not_Nil)
  show ?thesis
    unfolding parse_caf_def normal_fixed [OF assms(2)] Let_def m using ne by simp
qed

subsection \<open>The identifiers that the reader returns\<close>

lemma fullmatch_d2_fmt02d: "0 \<le> n \<Longrightarrow> n \<le> 99 \<Longrightarrow> fullmatch_d2 (fmt02d n)"
  using fmt02d_digits [of n] by (auto simp: fullmatch_d2_iff)

lemma fullmatch_d2_D: "fullmatch_d2 x \<Longrightarrow> length x = 2 \<and> list_all re_digit x"
  unfolding fullmatch_d2_def by (drule rep_SomeD) simp

lemma scan_rows_digits:
  "scan_rows mes ano rows (v, ids) = Inr (v', ids') \<Longrightarrow> list_all fullmatch_d2 ids \<Longrightarrow>
   list_all fullmatch_d2 ids'"
proof (induction rows arbitrary: v ids)
  case Nil
  then show ?case by simp
next
  case (Cons row rows)
  from Cons.prems(1) obtain w js where
    next_call: "scan_rows mes ano rows (w, js) = Inr (v', ids')" and
    js: "js = ids \<or> (\<exists>n. 0 \<le> n \<and> n \<le> 99 \<and> js = ids @ [fmt02d n])"
    by (auto simp: Let_def split: sum.splits option.splits if_splits)
  from js Cons.prems(2) have "list_all fullmatch_d2 js"
    by (auto simp: fullmatch_d2_fmt02d)
  with next_call show ?case
    by (rule Cons.IH)
qed

lemma sort_by_int_set:
  assumes "sort_by_int ids = Inr ids'"
  shows "set ids' \<subseteq> set ids"
proof (cases "those (map py_int_str ids)")
  case None
  with assms show ?thesis
    by (simp add: sort_by_int_def)
next
  case (Some ks)
  with assms have "ids' = map snd (sort_key fst (zip ks ids))"
    by (simp add: sort_by_int_def)
  then have e: "set ids' = snd ` set (zip ks ids)"
    by simp
  show ?thesis
  proof
    fix x
    assume "x \<in> set ids'"
    then obtain k where "(k, x) \<in> set (zip ks ids)"
      unfolding e by auto
    then show "x \<in> set ids"
      by (rule set_zip_rightD)
  qed
qed

lemma ler_digits:
  assumes "ler_identificadores_unicos_ordenados PLANILHA planilha mes ano = Inr ids"
  shows "\<forall>x\<in>set ids. fullmatch_d2 x"
proof -
  from assms obtain ws v ids0 where
    sc: "scan_rows mes ano (drop 1 ws) ({}, []) = Inr (v, ids0)" and s: "sort_by_int ids0 = Inr ids"
    by (auto simp: ler_identificadores_unicos_ordenados_def split: option.splits sum.splits)
  from sc have "list_all fullmatch_d2 ids0"
    by (rule scan_rows_digits) simp
  then show ?thesis
    using sort_by_int_set [OF s] by (auto simp: list_all_iff)
qed

subsection \<open>Every combo is a code\<close>

lemma combo_parses:
  assumes p: "parse_caf caf = Some p" and x: "fullmatch_d2 x"
  shows "\<exists>q. parse_caf (prefixo p @ x @ tail p) = Some q \<and>
           CAF_NORMALIZADO q = prefixo p @ x @ tail p \<and> IDENT q = x \<and>
           CAF_RE_match (prefixo p @ x @ tail p) = Some (groupdict.truncate q) \<and>
           (\<forall>ch\<in>set (prefixo p @ x @ tail p). \<not> isspace ch)"
proof -
  let ?d = "p\<lparr>IDENT := x\<rparr>"
  let ?c = "code_of ?d ''CAF''"
  have c: "prefixo p @ x @ tail p = ?c"
    by (simp add: prefixo_def tail_def code_of_def)
  from parse_caf_SomeD [OF p] have ok: "fields_ok p"
    by blast
  from fullmatch_d2_D [OF x] have x2: "length x = 2" "list_all re_digit x"
    by simp_all
  then have okd: "fields_ok ?d"
    using ok by (simp add: fields_ok_def ident_ok_def)
  have "\<forall>c\<in>set x. code_char c"
    using x2(2) re_digit_code_char by (auto simp: list_all_iff)
  moreover have "\<forall>c\<in>set (code_of p ''CAF''). code_char c"
    using p by (rule parse_caf_code_chars)
  ultimately have chars: "\<forall>c\<in>set ?c. code_char c"
    by (auto simp: code_of_def)
  let ?q = "groupdict.extend (groupdict.truncate ?d) (parsed.fields ?c)"
  have "parse_caf ?c = Some ?q"
    using okd chars by (rule parse_caf_code)
  moreover have "CAF_NORMALIZADO ?q = ?c" "groupdict.truncate ?q = groupdict.truncate ?d"
    by (simp_all only: extend_fields)
  moreover have "IDENT ?q = x"
    by (simp add: extend_fields groupdict.truncate_def)
  moreover have "CAF_RE_match ([] @ ?c @ []) = Some (groupdict.truncate ?d)"
    using okd CAF_icase_refl by (rule CAF_RE_match_code) simp_all
  moreover have "\<forall>ch\<in>set ?c. \<not> isspace ch"
    using chars code_char_not_space by blast
  ultimately show ?thesis
    unfolding c by (intro exI [of _ ?q]) simp
qed

text \<open>
  C8. For a record that \<open>parse_caf\<close> returned and an identifier list that the reader
  returned, every combo of \<open>gerar_combos\<close> matches the pattern, holds no whitespace, and
  parses to a record whose IDENT is two digits and whose normalised string is the combo
  itself.
\<close>

theorem combos_wellformed:
  assumes "parse_caf caf = Some p"
    and "ler_identificadores_unicos_ordenados PLANILHA planilha mes ano = Inr ids"
    and "c \<in> set (gerar_combos p ids)"
  shows "\<exists>q. parse_caf c = Some q \<and> CAF_NORMALIZADO q = c \<and> fullmatch_d2 (IDENT q) \<and>
           CAF_RE_match c = Some (groupdict.truncate q) \<and> (\<forall>ch\<in>set c. \<not> isspace ch)"
proof -
  from assms(3) obtain x where x: "fullmatch_d2 x" and c: "c = prefixo p @ x @ tail p"
    using ler_digits [OF assms(2)]
    by (auto simp: gerar_combos_def Let_def split: if_splits)
  from combo_parses [OF assms(1) x] show ?thesis
    unfolding c using x by auto
qed

theorem combos_wellformed_witness:
  "parse_caf '' ba 032025.01.00xx39367caf '' = Some (ex_parsed ''XX'') \<and>
   ler_identificadores_unicos_ordenados ''dados/GABARITO.xlsx'' (Some ex_sheet) ''03'' ''2025''
     = Inr [''05'', ''07'', ''12''] \<and>
   ''BA032025.01.000739367CAF'' \<in> set (gerar_combos (ex_parsed ''XX'') [''05'', ''07'', ''12'']) \<and>
   (\<exists>q. parse_caf ''BA032025.01.000739367CAF'' = Some q \<and>
        CAF_NORMALIZADO q = ''BA032025.01.000739367CAF'' \<and> fullmatch_d2 (IDENT q))"
proof -
  have m: "''BA032025.01.000739367CAF'' \<in> set (gerar_combos (ex_parsed ''XX'') [''05'', ''07'', ''12''])"
    by (simp add: gerar_combos_def not_fullmatch_d2_wild prefixo_def tail_def ex_parsed_def)
  from combos_wellformed [OF parse_caf_example ex_sheet_ids m]
  have "\<exists>q. parse_caf ''BA032025.01.000739367CAF'' = Some q \<and>
        CAF_NORMALIZADO q = ''BA032025.01.000739367CAF'' \<and> fullmatch_d2 (IDENT q)"
    by blast
  with parse_caf_example ex_sheet_ids m show ?thesis
    by (intro conjI)
qed

section \<open>Case and whitespace\<close>

subsection \<open>Variants of a code: letter case, spaces, surrounding whitespace\<close>




lemma upper_append: "upper (s @ t) = upper s @ upper t"
  by (simp add: upper_def)












text \<open>
  The failure at the tab is general: a whitespace character other than U+0020 put
  anywhere inside a clean code makes \<open>parse_caf\<close> return None.
\<close>

lemma strip_ends_ok:
  assumes "ends_ok s"
  shows "strip s = s"
proof -
  have 1: "dropWhile isspace s = s"
    using assms by (rule ends_ok_dropWhile)
  have "ends_ok (rev s)"
    using assms by (cases "s = []") (simp_all add: ends_ok_def hd_rev last_rev)
  then have 2: "dropWhile isspace (rev s) = rev s"
    by (rule ends_ok_dropWhile)
  show ?thesis
    by (simp only: strip_def 1 2 rev_rev_ident)
qed

lemma isspace_upper_char: "isspace w \<Longrightarrow> upper_char w = [w]"
  unfolding isspace_def
  by (simp, elim disjE; hypsubst;
      simp add: upper_char_def ascii_uppercase_def ascii_lowercase_def
        latin1_lowercase_def latin1_uppercase_def)

lemma isspace_not_lower: "isspace w \<Longrightarrow> w \<notin> set ascii_lowercase"
  unfolding isspace_def ascii_lowercase_def by auto

lemma parse_caf_interior_whitespace:
  assumes "parse_caf c = Some p" and "CAF_NORMALIZADO p = c" and "c = a @ b"
    and "a \<noteq> []" and "b \<noteq> []" and "isspace w" and "w \<noteq> CHR '' ''"
  shows "parse_caf (a @ [w] @ b) = None"
proof -
  let ?x = "a @ [w] @ b"
  from parse_caf_SomeD [OF assms(1)] have "CAF_NORMALIZADO p = code_of p ''CAF''"
    by blast
  then have "\<forall>ch\<in>set c. code_char ch"
    using parse_caf_code_chars [OF assms(1)] assms(2) by simp
  then have ab: "\<forall>ch\<in>set a. code_char ch" "\<forall>ch\<in>set b. code_char ch"
    by (simp_all add: assms(3))
  have "\<not> isspace (hd a)" "\<not> isspace (last b)"
    using ab assms(4,5) code_char_not_space by simp_all
  then have ends: "ends_ok ?x"
    using assms(4,5) by (simp add: ends_ok_def)
  then have 1: "strip ?x = ?x"
    by (rule strip_ends_ok)
  have "upper a = a" "upper b = b"
    using ab code_char_upper by (simp_all add: upper_fixed)
  then have 2: "upper ?x = ?x"
    using isspace_upper_char [OF assms(6)] by (simp add: upper_append upper_def)
  have "\<forall>ch\<in>set a \<union> set b. ch \<noteq> CHR '' ''"
    using ab code_char_not_space isspace_space by auto
  then have 3: "replace_space ?x = ?x"
    using assms(7) by (intro replace_space_fixed) auto
  have low: "\<forall>u\<in>set ?x. u \<notin> set ascii_lowercase"
    using ab code_char_not_lower isspace_not_lower [OF assms(6)] by auto
  have m: "CAF_RE_match ?x = None"
  proof (rule ccontr)
    assume "CAF_RE_match ?x \<noteq> None"
    then obtain d where d: "CAF_RE_match ?x = Some d"
      by blast
    from match_normal [OF d ends low] have ok: "fields_ok d" and x: "?x = code_of d ''CAF''"
      by blast+
    from low have "\<forall>u\<in>set (code_of d ''CAF''). u \<notin> set ascii_lowercase"
      unfolding x .
    with ok have "\<forall>u\<in>set (code_of d ''CAF''). code_char u"
      by (rule code_of_code_char)
    then have "code_char w"
      unfolding x [symmetric] by simp
    then show False
      using assms(6) code_char_not_space by blast
  qed
  have n: "replace_space (upper (strip ?x)) = ?x"
    by (simp only: 1 2 3)
  show ?thesis
    unfolding parse_caf_def Let_def n m by simp
qed

section \<open>Responses of the handler\<close>

subsection \<open>The handler strips the field before \<open>parse_caf\<close> does\<close>

lemma strip_strip: "strip (strip s) = strip s"
proof -
  have ok: "ends_ok (strip s)"
    by (rule ends_ok_strip)
  then have 1: "dropWhile isspace (strip s) = strip s"
    by (rule ends_ok_dropWhile)
  have "ends_ok (rev (strip s))"
    using ok by (cases "strip s = []") (simp_all add: ends_ok_def hd_rev last_rev)
  then have 2: "dropWhile isspace (rev (strip s)) = rev (strip s)"
    by (rule ends_ok_dropWhile)
  have "strip (strip s) = rev (dropWhile isspace (rev (dropWhile isspace (strip s))))"
    by (simp only: strip_def)
  also have "\<dots> = strip s"
    by (simp only: 1 2 rev_rev_ident)
  finally show ?thesis .
qed

lemma parse_caf_strip: "parse_caf (strip s) = parse_caf s"
proof (cases "strip s = []")
  case True
  then have "parse_caf s = None"
    by (simp add: parse_caf_def upper_def replace_space_def CAF_RE_match_Nil)
  then show ?thesis
    using True by (simp add: parse_caf_def)
next
  case False
  then have "s \<noteq> []"
    by (auto simp: strip_def)
  then show ?thesis
    using False by (simp add: parse_caf_def strip_strip)
qed

subsection \<open>The responses of \<open>do_POST\<close>\<close>

lemma do_POST_unparsed:
  assumes "caf_in req = Inr c" and "parse_caf c = None"
  shows "do_POST PLANILHA planilha req = \<lparr>status = 400, body = Erro msg_formato\<rparr>"
  using assms by (simp add: do_POST_def try_POST_def)

lemma do_POST_no_code:
  assumes "caf_in req = Inl e"
  shows "status (do_POST PLANILHA planilha req) = 500"
  using assms by (cases e) (simp add: do_POST_def try_POST_def split: exn.splits)

lemma do_POST_raised:
  assumes "caf_in req = Inr c" and "parse_caf c = Some p"
    and "ler_identificadores_unicos_ordenados PLANILHA planilha (MES p) (ANO p) = Inl e"
  shows "status (do_POST PLANILHA planilha req) = 500"
  using assms by (cases e) (simp add: do_POST_def try_POST_def split: exn.splits)

lemma do_POST_ids:
  assumes "caf_in req = Inr c" and "parse_caf c = Some p"
    and "ler_identificadores_unicos_ordenados PLANILHA planilha (MES p) (ANO p) = Inr ids"
  shows "do_POST PLANILHA planilha req =
     (if ids = [] then \<lparr>status = 404, body = Erro (msg_nenhum (MES p) (ANO p))\<rparr>
      else if gerar_combos p ids = [] then \<lparr>status = 404, body = Erro msg_ident\<rparr>
      else \<lparr>status = 200, body = Combos (gerar_combos p ids)\<rparr>)"
  using assms by (simp add: do_POST_def try_POST_def Let_def)

lemma do_POST_missing_file:
  assumes "caf_in req = Inr c" and "parse_caf c = Some p"
  shows "do_POST PLANILHA None req =
     \<lparr>status = 500, body = Erro (''Planilha n'' @ [CHR 0xE3] @ ''o encontrada: '' @ PLANILHA)\<rparr>"
  using assms
  by (simp add: do_POST_def try_POST_def ler_identificadores_unicos_ordenados_def)

lemma do_POST_400_iff:
  "status (do_POST PLANILHA planilha req) = 400 \<longleftrightarrow>
     (\<exists>c. caf_in req = Inr c \<and> parse_caf c = None)"
proof (cases "caf_in req")
  case (Inl e)
  then show ?thesis
    using do_POST_no_code [OF Inl, of PLANILHA planilha] by simp
next
  case (Inr c)
  show ?thesis
  proof (cases "parse_caf c")
    case None
    then show ?thesis
      using Inr do_POST_unparsed [OF Inr None, of PLANILHA planilha] by simp
  next
    case (Some p)
    show ?thesis
    proof (cases "ler_identificadores_unicos_ordenados PLANILHA planilha (MES p) (ANO p)")
      case (Inl e)
      then show ?thesis
        using Inr Some do_POST_raised [OF Inr Some Inl] by simp
    next
      case ids: (Inr ids)
      then show ?thesis
        using Inr Some do_POST_ids [OF Inr Some ids] by simp
    qed
  qed
qed

text \<open>
  C5, as amended. For every POST request: the answer is 400 exactly when the handler
  obtains a code from the body and \<open>parse_caf\<close> returns None on it; when the code
  parses, a missing spreadsheet file is answered 500 with a message that contains the
  configured path, an empty identifier list 404 "Nenhum identificador encontrado para
  MM/YYYY.", a non-empty identifier list with an empty list of combos 404 "IDENT ...
  presente no gabarito ...", and success (a non-empty identifier list and a non-empty list
  of combos) 200 with the combos.
\<close>

theorem do_POST_responses:
  "(status (do_POST PLANILHA planilha req) = 400 \<longleftrightarrow>
      (\<exists>c. caf_in req = Inr c \<and> parse_caf c = None)) \<and>
   (\<forall>c p. caf_in req = Inr c \<longrightarrow> parse_caf c = Some p \<longrightarrow>
      (planilha = None \<longrightarrow>
         status (do_POST PLANILHA planilha req) = 500 \<and>
         (\<exists>m. body (do_POST PLANILHA planilha req) = Erro m \<and> sublist PLANILHA m)) \<and>
      (\<forall>ids. ler_identificadores_unicos_ordenados PLANILHA planilha (MES p) (ANO p) = Inr ids \<longrightarrow>
         do_POST PLANILHA planilha req =
           (if ids = [] then \<lparr>status = 404, body = Erro (msg_nenhum (MES p) (ANO p))\<rparr>
            else if gerar_combos p ids = [] then \<lparr>status = 404, body = Erro msg_ident\<rparr>
            else \<lparr>status = 200, body = Combos (gerar_combos p ids)\<rparr>)))"
proof (intro conjI allI impI)
  show "status (do_POST PLANILHA planilha req) = 400 \<longleftrightarrow>
      (\<exists>c. caf_in req = Inr c \<and> parse_caf c = None)"
    by (rule do_POST_400_iff)
next
  fix c p
  assume c: "caf_in req = Inr c" and p: "parse_caf c = Some p" and none: "planilha = None"
  show "status (do_POST PLANILHA planilha req) = 500"
    unfolding none do_POST_missing_file [OF c p] by simp
  have "sublist PLANILHA (''Planilha n'' @ [CHR 0xE3] @ ''o encontrada: '' @ PLANILHA)"
    by (intro suffix_imp_sublist suffixI) simp
  then show "\<exists>m. body (do_POST PLANILHA planilha req) = Erro m \<and> sublist PLANILHA m"
    unfolding none do_POST_missing_file [OF c p] by simp
next
  fix c p ids
  assume "caf_in req = Inr c" and "parse_caf c = Some p"
    and "ler_identificadores_unicos_ordenados PLANILHA planilha (MES p) (ANO p) = Inr ids"
  then show "do_POST PLANILHA planilha req =
      (if ids = [] then \<lparr>status = 404, body = Erro (msg_nenhum (MES p) (ANO p))\<rparr>
       else if gerar_combos p ids = [] then \<lparr>status = 404, body = Erro msg_ident\<rparr>
       else \<lparr>status = 200, body = Combos (gerar_combos p ids)\<rparr>)"
    by (rule do_POST_ids)
qed

lemma ex_request_code: "caf_in ex_request = Inr ''ba032025.01.00**39367caf''"
  by (simp add: ex_request_def caf_in_def strip_def isspace_def)

lemma ex_request_parsed: "parse_caf ''ba032025.01.00**39367caf'' = Some (ex_parsed ''**'')"
  by (simp add: parse_eval ex_parsed_def)

lemma ex_request_ids:
  "ler_identificadores_unicos_ordenados ''dados/GABARITO.xlsx'' (Some ex_sheet)
     (MES (ex_parsed ''**'')) (ANO (ex_parsed ''**'')) = Inr [''05'', ''07'', ''12'']"
  using ex_sheet_ids by (simp add: ex_parsed_def)

lemma ex_request_combos:
  "gerar_combos (ex_parsed ''**'') [''05'', ''07'', ''12''] =
     [''BA032025.01.000539367CAF'', ''BA032025.01.000739367CAF'', ''BA032025.01.001239367CAF'']"
  by (simp add: gerar_combos_def not_fullmatch_d2_wild prefixo_def tail_def ex_parsed_def)

theorem do_POST_responses_witness:
  "caf_in ex_request = Inr ''ba032025.01.00**39367caf'' \<and>
   parse_caf ''ba032025.01.00**39367caf'' = Some (ex_parsed ''**'') \<and>
   ler_identificadores_unicos_ordenados ''dados/GABARITO.xlsx'' (Some ex_sheet)
     (MES (ex_parsed ''**'')) (ANO (ex_parsed ''**'')) = Inr [''05'', ''07'', ''12''] \<and>
   do_POST ''dados/GABARITO.xlsx'' (Some ex_sheet) ex_request =
     \<lparr>status = 200, body = Combos [''BA032025.01.000539367CAF'', ''BA032025.01.000739367CAF'',
        ''BA032025.01.001239367CAF'']\<rparr> \<and>
   status (do_POST ''dados/GABARITO.xlsx'' None ex_request) = 500 \<and>
   (\<exists>m. body (do_POST ''dados/GABARITO.xlsx'' None ex_request) = Erro m \<and>
        sublist ''dados/GABARITO.xlsx'' m)"
proof -
  note t = do_POST_responses [of "''dados/GABARITO.xlsx''" "Some ex_sheet" ex_request]
  note inner = conjunct2 [OF t, rule_format, OF ex_request_code ex_request_parsed]
  note r = conjunct2 [OF inner, rule_format, OF ex_request_ids]
  have ok: "do_POST ''dados/GABARITO.xlsx'' (Some ex_sheet) ex_request =
     \<lparr>status = 200, body = Combos [''BA032025.01.000539367CAF'', ''BA032025.01.000739367CAF'',
        ''BA032025.01.001239367CAF'']\<rparr>"
    unfolding r ex_request_combos by simp
  note t' = do_POST_responses [of "''dados/GABARITO.xlsx''" None ex_request]
  note inner' = conjunct2 [OF t', rule_format, OF ex_request_code ex_request_parsed]
  note missing = conjunct1 [OF inner', rule_format, OF refl]
  from ex_request_code ex_request_parsed ex_request_ids ok missing show ?thesis
    by (intro conjI) simp_all
qed

text \<open>
  C5 as stated fails where it says 500 for every request made while the file is missing:
  the file is looked for only after the code has parsed.
\<close>

theorem do_POST_missing_file_bad_code:
  "do_POST ''dados/GABARITO.xlsx'' None (Body (JObj [(''caf'', JStr ''not-a-code'')]))
     = \<lparr>status = 400, body = Erro msg_formato\<rparr>"
proof -
  have "caf_in (Body (JObj [(''caf'', JStr ''not-a-code'')])) = Inr ''not-a-code''"
    by (simp add: caf_in_def strip_def isspace_def)
  then show ?thesis
    using parse_caf_not_a_code by (rule do_POST_unparsed)
qed

end
